theory Spec2Isabelle
  imports Main "HOL-Library.Multiset" "HOL-Library.Sublist"
begin

section \<open>Host containers and snapshots (itemPickup.js)\<close>

text \<open>
  An item stack as the host hands it out: its type identifier and its amount. A JavaScript
  number that counts items is modelled as an \<open>int\<close>; nothing in the code forces it to be
  non-negative, so theorems that need that say so.
\<close>

record item =
  typeId :: string
  amount :: int

text \<open>
  A container is its slots in index order; \<open>inventory.size\<close> is the length of the list,
  \<open>inventory.getItem(i)\<close> is the \<open>i\<close>-th entry, \<open>None\<close> for an empty slot.
\<close>

type_synonym container = "item option list"

text \<open>
  A JavaScript \<open>Map\<close> from type identifiers to counts, as the list of its entries in
  insertion order (the order in which \<open>for ... of\<close> visits them). \<open>map.get(k)\<close> is
  \<open>map_of m k\<close>; \<open>map.set(k, v)\<close> overwrites the entry of an existing key in place and
  appends a new key at the end.
\<close>

type_synonym snapshot = "(string \<times> int) list"

fun Map_set :: "'k \<Rightarrow> 'v \<Rightarrow> ('k \<times> 'v) list \<Rightarrow> ('k \<times> 'v) list" where
  "Map_set k v [] = [(k, v)]"
| "Map_set k v ((k', v') # m) = (if k' = k then (k, v) # m else (k', v') # Map_set k v m)"

text \<open>\<open>x || 0\<close> for the result of \<open>map.get\<close>: an absent key reads as 0.\<close>

definition or0 :: "int option \<Rightarrow> int" where
  "or0 x = (case x of None \<Rightarrow> 0 | Some v \<Rightarrow> v)"

text \<open>
  \<open>snapshotInventory\<close>: the loop \<open>for (let i = 0; i < inventory.size; i++)\<close> with the
  accumulated \<open>result\<close>.
\<close>

function snapshot_loop :: "container \<Rightarrow> nat \<Rightarrow> snapshot \<Rightarrow> snapshot" where
  "snapshot_loop inventory i result =
     (if i < length inventory then
        (case inventory ! i of
           None \<Rightarrow> snapshot_loop inventory (Suc i) result
         | Some item \<Rightarrow>
             snapshot_loop inventory (Suc i)
               (Map_set (typeId item) (or0 (map_of result (typeId item)) + amount item) result))
      else result)"
  by pat_completeness auto
termination
  by (relation "measure (\<lambda>(inventory, i, result). length inventory - i)") auto

declare snapshot_loop.simps [simp del]

definition snapshotInventory :: "container \<Rightarrow> snapshot" where
  "snapshotInventory inventory = snapshot_loop inventory 0 []"

text \<open>The total amount of one item type held in a container, over all its slots.\<close>

definition held :: "string \<Rightarrow> container \<Rightarrow> int" where
  "held t inventory =
     sum_list (map (\<lambda>slot. case slot of None \<Rightarrow> 0 | Some item \<Rightarrow> if typeId item = t then amount item else 0) inventory)"

text \<open>The item types that occur in some non-empty slot.\<close>

definition types_in :: "container \<Rightarrow> string set" where
  "types_in inventory = {t. \<exists>item. Some item \<in> set inventory \<and> typeId item = t}"

subsection \<open>The gain records of one player (lines 33 to 44 of the poll)\<close>

text \<open>
  \<open>playerCache.get(player.name) || new Map()\<close> is the cached snapshot or an empty map, and
  \<open>previous.get(typeId) || 0\<close> the old amount.
\<close>

definition oldAmount :: "snapshot option \<Rightarrow> string \<Rightarrow> int" where
  "oldAmount previous t = or0 (map_of (case previous of None \<Rightarrow> [] | Some m \<Rightarrow> m) t)"

text \<open>
  The loop over the entries of \<open>current\<close> skips (\<open>continue\<close>) an entry whose amount is at
  most the old amount, and builds one record with \<open>pickedUpAmount = amount - oldAmount\<close>
  for each other entry, in the order of the entries.
\<close>

fun diff :: "snapshot option \<Rightarrow> snapshot \<Rightarrow> (string \<times> int) list" where
  "diff previous [] = []"
| "diff previous ((t, a) # current) =
     (if a \<le> oldAmount previous t then diff previous current
      else (t, a - oldAmount previous t) # diff previous current)"

section \<open>The removal action (itemPickup.js)\<close>

text \<open>
  \<open>inventory.setItem(i, v)\<close> is a primitive of the host. A write that succeeds replaces
  slot \<open>i\<close> and leaves the slot count alone; whether a write fails, and with which
  message, is the host's business and is a parameter here: \<open>fault inventory i v\<close> is
  \<open>Some message\<close> when the host throws. A failed write leaves the container as it was.
\<close>

type_synonym write_fault = "container \<Rightarrow> nat \<Rightarrow> item option \<Rightarrow> string option"

definition setItem :: "write_fault \<Rightarrow> container \<Rightarrow> nat \<Rightarrow> item option \<Rightarrow> string + container" where
  "setItem fault inventory i v =
     (case fault inventory i v of Some message \<Rightarrow> Inl message | None \<Rightarrow> Inr (inventory[i := v]))"

definition no_fault :: write_fault where
  "no_fault = (\<lambda>inventory i v. None)"

text \<open>
  \<open>removeItemsFromInventory\<close>: the loop
  \<open>for (let i = 0; i < inventory.size && remaining > 0; i++)\<close>. The result is the error
  thrown out of the loop, if any, and the container as the loop left it.
\<close>

function remove_loop ::
  "write_fault \<Rightarrow> string \<Rightarrow> container \<Rightarrow> nat \<Rightarrow> int \<Rightarrow> string option \<times> container" where
  "remove_loop fault tid inventory i remaining =
     (if i < length inventory \<and> remaining > 0 then
        (case inventory ! i of
           None \<Rightarrow> remove_loop fault tid inventory (Suc i) remaining
         | Some item \<Rightarrow>
             if typeId item = tid then
               (if amount item \<le> remaining then
                  (case setItem fault inventory i None of
                     Inl message \<Rightarrow> (Some message, inventory)
                   | Inr inventory' \<Rightarrow>
                       remove_loop fault tid inventory' (Suc i) (remaining - amount item))
                else
                  (case setItem fault inventory i (Some (item\<lparr>amount := amount item - remaining\<rparr>)) of
                     Inl message \<Rightarrow> (Some message, inventory)
                   | Inr inventory' \<Rightarrow> remove_loop fault tid inventory' (Suc i) 0))
             else remove_loop fault tid inventory (Suc i) remaining)
      else (None, inventory))"
  by pat_completeness auto
termination
  by (relation "measure (\<lambda>(fault, tid, inventory, i, remaining). length inventory - i)")
    (auto simp: setItem_def split: option.splits)

declare remove_loop.simps [simp del]

definition removeItemsFromInventory ::
  "write_fault \<Rightarrow> string \<Rightarrow> int \<Rightarrow> container \<Rightarrow> string option \<times> container" where
  "removeItemsFromInventory fault tid amountToRemove inventory =
     remove_loop fault tid inventory 0 amountToRemove"

text \<open>
  The removal as the specification words it: slots in ascending order; a matching slot
  whose amount is at most what remains is cleared and its amount subtracted from what
  remains; a larger matching slot is decremented by what remains, and the scan stops; the
  scan also stops when nothing remains or the slots are exhausted.
\<close>

fun remove_spec :: "string \<Rightarrow> int \<Rightarrow> container \<Rightarrow> container" where
  "remove_spec tid remaining [] = []"
| "remove_spec tid remaining (slot # slots) =
     (if remaining \<le> 0 then slot # slots
      else (case slot of
              None \<Rightarrow> None # remove_spec tid remaining slots
            | Some item \<Rightarrow>
                if typeId item = tid then
                  (if amount item \<le> remaining
                   then None # remove_spec tid (remaining - amount item) slots
                   else Some (item\<lparr>amount := amount item - remaining\<rparr>) # slots)
                else slot # remove_spec tid remaining slots))"

text \<open>
  What a callback can touch while it runs: the container of the player whose gain is
  reported, and the console. An action or a callback returns the error it throws, if any,
  and the state it leaves.
\<close>

record host =
  h_inv :: container
  h_console :: "string list"

type_synonym action = "host \<Rightarrow> string option \<times> host"

text \<open>\<open>actions.remove()\<close>: the removal inside \<open>try\<close>, the message on the console in \<open>catch\<close>.\<close>

definition remove :: "write_fault \<Rightarrow> string \<Rightarrow> int \<Rightarrow> action" where
  "remove fault tid pickedUpAmount h =
     (case removeItemsFromInventory fault tid pickedUpAmount (h_inv h) of
        (None, inventory') \<Rightarrow> (None, h\<lparr>h_inv := inventory'\<rparr>)
      | (Some message, inventory') \<Rightarrow>
          (None, h\<lparr>h_inv := inventory',
                    h_console := h_console h @ [''Failed to remove items: '' @ message]\<rparr>))"

section \<open>Listeners and the poll cycle (itemPickup.js)\<close>

record pickup_data =
  d_typeId :: string
  d_amount :: int
  d_player :: string

type_synonym callback = "pickup_data \<Rightarrow> action \<Rightarrow> host \<Rightarrow> string option \<times> host"

record listener =
  callback :: callback
  tick :: int
  counter :: int

record player =
  p_name :: string
  p_inventory :: "container option"

text \<open>
  The state of one run of the interval callback: the listeners (their counters change),
  what the callbacks can touch, the error that ended the run, if any, and, to state
  properties about invocations, the log of callback invocations: the index of the listener
  in \<open>listeners\<close> and the record it was given.
\<close>

record cycle =
  c_listeners :: "listener list"
  c_host :: host
  c_fired :: "(nat \<times> pickup_data) list"
  c_thrown :: "string option"

text \<open>
  The body of \<open>listeners.forEach\<close> at lines 58 to 63 for the listener at index \<open>i\<close>. An
  exception thrown by the callback leaves the loop before the counter is reset; once an
  exception is in flight nothing more runs.
\<close>

definition fire :: "pickup_data \<Rightarrow> action \<Rightarrow> nat \<Rightarrow> cycle \<Rightarrow> cycle" where
  "fire data actions i c =
     (case c_thrown c of
        Some e \<Rightarrow> c
      | None \<Rightarrow>
          let listener = c_listeners c ! i in
          if counter listener \<ge> tick listener then
            (case callback listener data actions (c_host c) of
               (Some e, h) \<Rightarrow>
                 c\<lparr>c_host := h, c_fired := c_fired c @ [(i, data)], c_thrown := Some e\<rparr>
             | (None, h) \<Rightarrow>
                 c\<lparr>c_listeners := (c_listeners c)[i := listener\<lparr>counter := 0\<rparr>],
                   c_host := h, c_fired := c_fired c @ [(i, data)]\<rparr>)
          else c)"

definition notify :: "pickup_data \<Rightarrow> action \<Rightarrow> cycle \<Rightarrow> cycle" where
  "notify data actions c = fold (fire data actions) [0..<length (c_listeners c)] c"

text \<open>Lines 39 to 63 for one gain: the record, the action bound to it, the listeners.\<close>

definition on_gain :: "write_fault \<Rightarrow> string \<Rightarrow> string \<times> int \<Rightarrow> cycle \<Rightarrow> cycle" where
  "on_gain fault pname gain c =
     notify \<lparr>d_typeId = fst gain, d_amount = snd gain, d_player = pname\<rparr>
       (remove fault (fst gain) (snd gain)) c"

text \<open>
  The loop over the players, lines 28 to 67. It returns the players with their containers as
  the callbacks left them, the player cache and the state of the run. A player without an
  inventory component is skipped. The cache entry of a player is written after that
  player's gains have been delivered, so not when an exception ended the run before.
\<close>

fun poll_players ::
  "write_fault \<Rightarrow> player list \<Rightarrow> (string \<times> snapshot) list \<Rightarrow> cycle
     \<Rightarrow> player list \<times> (string \<times> snapshot) list \<times> cycle" where
  "poll_players fault [] cache c = ([], cache, c)"
| "poll_players fault (p # ps) cache c =
     (case c_thrown c of
        Some e \<Rightarrow> (p # ps, cache, c)
      | None \<Rightarrow>
          (case p_inventory p of
             None \<Rightarrow>
               (case poll_players fault ps cache c of
                  (ps', cache', c') \<Rightarrow> (p # ps', cache', c'))
           | Some inventory \<Rightarrow>
               let current = snapshotInventory inventory;
                   previous = map_of cache (p_name p);
                   c1 = fold (on_gain fault (p_name p)) (diff previous current)
                          (c\<lparr>c_host := (c_host c)\<lparr>h_inv := inventory\<rparr>\<rparr>);
                   p1 = p\<lparr>p_inventory := Some (h_inv (c_host c1))\<rparr>;
                   cache1 = (if c_thrown c1 = None then Map_set (p_name p) current cache else cache)
               in (case poll_players fault ps cache1 c1 of
                     (ps', cache', c') \<Rightarrow> (p1 # ps', cache', c'))))"

text \<open>
  The state of the module: the listeners, the player cache, the handle of the recurring
  task and the poll period. \<open>timer_calls\<close> is the log of the calls made to the host
  scheduler, kept to state properties about the live recurring tasks.
\<close>

datatype host_call = RunInterval nat int | ClearRun nat

record item_pickup =
  listeners :: "listener list"
  playerCache :: "(string \<times> snapshot) list"
  systemIntervalId :: "nat option"
  systemIntervalTick :: int
  timer_calls :: "host_call list"

definition DEFAULT_TICK :: int where
  "DEFAULT_TICK = 10"

definition init :: item_pickup where
  "init = \<lparr>listeners = [], playerCache = [], systemIntervalId = None,
            systemIntervalTick = DEFAULT_TICK, timer_calls = []\<rparr>"

text \<open>
  One run of the interval callback, lines 22 to 67: every counter is advanced by the poll
  period, then the players are visited.
\<close>

definition poll ::
  "write_fault \<Rightarrow> item_pickup \<Rightarrow> player list \<Rightarrow> string list \<Rightarrow> item_pickup \<times> player list \<times> cycle" where
  "poll fault s players console =
     (case poll_players fault players (playerCache s)
             \<lparr>c_listeners = map (\<lambda>l. l\<lparr>counter := counter l + systemIntervalTick s\<rparr>) (listeners s),
               c_host = \<lparr>h_inv = [], h_console = console\<rparr>, c_fired = [], c_thrown = None\<rparr> of
        (players', cache', c') \<Rightarrow>
          (s\<lparr>listeners := c_listeners c', playerCache := cache'\<rparr>, players', c'))"

section \<open>The scheduler (itemPickup.js)\<close>

text \<open>
  The host scheduler: \<open>system.runInterval\<close> returns a handle it has not returned before
  (here the number of handles issued so far) and the task is live until
  \<open>system.clearRun\<close> is called with its handle.
\<close>

fun is_run :: "host_call \<Rightarrow> bool" where
  "is_run (RunInterval h t) = True"
| "is_run (ClearRun h) = False"

definition fresh_handle :: "host_call list \<Rightarrow> nat" where
  "fresh_handle calls = length (filter is_run calls)"

fun live_after :: "nat list \<Rightarrow> host_call list \<Rightarrow> nat list" where
  "live_after hs [] = hs"
| "live_after hs (RunInterval h t # calls) = live_after (hs @ [h]) calls"
| "live_after hs (ClearRun h # calls) = live_after (removeAll h hs) calls"

definition live :: "host_call list \<Rightarrow> nat list" where
  "live calls = live_after [] calls"

definition startSystemInterval :: "item_pickup \<Rightarrow> item_pickup" where
  "startSystemInterval s =
     (case systemIntervalId s of
        Some h \<Rightarrow> s
      | None \<Rightarrow>
          let h = fresh_handle (timer_calls s) in
          s\<lparr>systemIntervalId := Some h,
            timer_calls := timer_calls s @ [RunInterval h (systemIntervalTick s)]\<rparr>)"

definition adjustSystemInterval :: "item_pickup \<Rightarrow> item_pickup" where
  "adjustSystemInterval s =
     (let minTick = foldl (\<lambda>m listener. min (tick listener) m) DEFAULT_TICK (listeners s) in
      if minTick \<noteq> systemIntervalTick s then
        (let s1 = s\<lparr>systemIntervalTick := minTick\<rparr> in
         case systemIntervalId s1 of
           None \<Rightarrow> s1
         | Some h \<Rightarrow>
             startSystemInterval
               (s1\<lparr>timer_calls := timer_calls s1 @ [ClearRun h], systemIntervalId := None\<rparr>))
      else s)"

text \<open>
  The arguments of \<open>listen\<close>: the first is a function or anything else; the second is
  missing (the default applies), an integer, or anything that \<open>Number.isInteger\<close> rejects.
\<close>

datatype tick_arg = Undefined | Integer int | NotInteger

definition listen :: "item_pickup \<Rightarrow> callback option \<Rightarrow> tick_arg \<Rightarrow> string + item_pickup" where
  "listen s cb t =
     (case cb of
        None \<Rightarrow> Inl ''Callback must be a function''
      | Some f \<Rightarrow>
          (case (case t of Undefined \<Rightarrow> Integer DEFAULT_TICK | Integer n \<Rightarrow> Integer n | NotInteger \<Rightarrow> NotInteger) of
             Integer n \<Rightarrow>
               if n < 1 then Inl ''Tick must be a positive integer''
               else Inr (startSystemInterval (adjustSystemInterval
                      (s\<lparr>listeners := listeners s @ [\<lparr>callback = f, tick = n, counter = 0\<rparr>]\<rparr>)))
           | _ \<Rightarrow> Inl ''Tick must be a positive integer''))"

text \<open>A sequence of registrations; one that throws leaves the module as it was.\<close>

fun listens :: "item_pickup \<Rightarrow> (callback option \<times> tick_arg) list \<Rightarrow> item_pickup" where
  "listens s [] = s"
| "listens s ((cb, t) # calls) =
     listens (case listen s cb t of Inl e \<Rightarrow> s | Inr s' \<Rightarrow> s') calls"


section \<open>The restore action (blockBreak.js)\<close>

text \<open>
  The record handed to a block-break listener. \<open>runCommand\<close> is a primitive of the host:
  \<open>runCommand command\<close> is \<open>Some message\<close> when the host throws; \<open>str\<close> is the text a
  template literal gives for a coordinate.
\<close>

record vector3 =
  vec_x :: int
  vec_y :: int
  vec_z :: int

record block_break_data =
  b_player :: string
  blockId :: string
  location :: vector3
  dimension :: string
  toolTypeId :: "string option"

text \<open>\<open>actions.restore()\<close>: the command inside \<open>try\<close>, the message on the console in \<open>catch\<close>.\<close>

definition restore ::
  "(int \<Rightarrow> string) \<Rightarrow> (string \<Rightarrow> string option) \<Rightarrow> block_break_data \<Rightarrow> string list
     \<Rightarrow> string option \<times> string list" where
  "restore str runCommand data console =
     (case runCommand (''setblock '' @ str (vec_x (location data)) @ '' '' @ str (vec_y (location data))
                         @ '' '' @ str (vec_z (location data)) @ '' '' @ blockId data) of
        Some message \<Rightarrow> (None, console @ [''Failed to restore block: '' @ message])
      | None \<Rightarrow> (None, console))"

section \<open>The HTTP shim (httpReq.js)\<close>

text \<open>
  An exception: \<open>Error m\<close> is what \<open>new Error(m)\<close> in the shim creates; \<open>TypeError\<close> is
  the engine's own exception out of a built-in, whose message is the engine's and is not
  modelled.
\<close>

datatype js_error = Error string | TypeError

text \<open>
  The request and response objects of the host transport, and the configuration object of
  \<open>httpReq\<close>: a missing property is \<open>None\<close>. A method is a string or some value without
  \<open>toUpperCase\<close>; a body is \<open>null\<close>, an object or a string; the headers are \<open>null\<close> or an
  object, given by its entries.
\<close>

datatype HttpRequestMethod = Get | Post | Put | Delete | Head

record HttpRequest =
  uri :: string
  req_method :: HttpRequestMethod
  req_body :: string
  req_headers :: "(string \<times> string) list"

record HttpResponse =
  resp_status :: int
  resp_body :: "string option"
  resp_headers :: "(string \<times> string) list"

datatype method_value = MethodString string | MethodOther

datatype 'j body_value = Null | Object 'j | Text string

datatype headers_value = HeadersNull | Headers "(string \<times> string) list"

record 'j config =
  cfg_url :: "string option"
  cfg_method :: "method_value option"
  cfg_data :: "'j body_value option"
  cfg_body :: "'j body_value option"
  cfg_headers :: "headers_value option"

text \<open>What \<open>httpReq\<close> resolves to; \<open>res_data = None\<close> is \<open>null\<close>.\<close>

record 'j http_result =
  res_status :: int
  res_data :: "'j option"
  res_headers :: "(string \<times> string) list"

text \<open>
  The built-ins of the language that the shim calls, as parameters: \<open>toUpperCase\<close> on a
  string; \<open>JSON.stringify\<close>, which throws a \<open>TypeError\<close> (\<open>None\<close>) on an object it cannot
  serialise, such as a cyclic one; and \<open>JSON.parse\<close>, which returns the value or throws
  with a message.
\<close>

record 'j js =
  toUpperCase :: "string \<Rightarrow> string"
  JSON_stringify :: "'j \<Rightarrow> string option"
  JSON_parse :: "string \<Rightarrow> string + 'j"

text \<open>A string that is missing or empty is falsy.\<close>

definition falsy :: "string option \<Rightarrow> bool" where
  "falsy x \<longleftrightarrow> x = None \<or> x = Some []"

text \<open>The \<open>switch\<close> on the upper-cased method; anything unknown is a GET.\<close>

definition request_method :: "string \<Rightarrow> HttpRequestMethod" where
  "request_method m =
     (if m = ''GET'' then Get
      else if m = ''POST'' then Post
      else if m = ''PUT'' then Put
      else if m = ''DELETE'' then Delete
      else if m = ''HEAD'' then Head
      else Get)"

text \<open>
  Lines 100 to 118: \<open>method.toUpperCase()\<close> throws when the method has no such function.
\<close>

definition set_method :: "'j js \<Rightarrow> method_value \<Rightarrow> HttpRequest \<Rightarrow> js_error + HttpRequest" where
  "set_method js method request =
     (case method of
        MethodOther \<Rightarrow> Inl TypeError
      | MethodString m \<Rightarrow> Inr (request\<lparr>req_method := request_method (toUpperCase js m)\<rparr>))"

text \<open>
  Lines 121 to 131: an object body is serialised, which can throw, and gets the default
  content type unless one is given, which reads a property of the headers and throws when
  they are \<open>null\<close>; a string body is taken as it is. The headers come back as the function
  leaves them.
\<close>

definition set_body ::
  "'j js \<Rightarrow> 'j body_value option \<Rightarrow> headers_value \<Rightarrow> HttpRequest
     \<Rightarrow> js_error + (HttpRequest \<times> headers_value)" where
  "set_body js body headers request =
     (case body of
        None \<Rightarrow> Inr (request, headers)
      | Some Null \<Rightarrow> Inr (request, headers)
      | Some (Text s) \<Rightarrow> Inr (request\<lparr>req_body := s\<rparr>, headers)
      | Some (Object obj) \<Rightarrow>
          (case JSON_stringify js obj of
             None \<Rightarrow> Inl TypeError
           | Some text \<Rightarrow>
               (case headers of
                  HeadersNull \<Rightarrow> Inl TypeError
                | Headers hs \<Rightarrow>
                    Inr (request\<lparr>req_body := text\<rparr>,
                         Headers (if falsy (map_of hs ''Content-Type'') \<and> falsy (map_of hs ''content-type'')
                                  then Map_set ''Content-Type'' ''application/json'' hs
                                  else hs)))))"

text \<open>Lines 134 to 138: \<open>Object.keys(headers)\<close> throws when the headers are \<open>null\<close>.\<close>

definition set_headers :: "headers_value \<Rightarrow> HttpRequest \<Rightarrow> js_error + HttpRequest" where
  "set_headers headers request =
     (case headers of
        HeadersNull \<Rightarrow> Inl TypeError
      | Headers hs \<Rightarrow> Inr (if length hs > 0 then request\<lparr>req_headers := hs\<rparr> else request))"

text \<open>
  Lines 90 to 138 once the URL is known: the defaults of the destructuring, the new request,
  then the three steps above. All of this runs before the \<open>try\<close> block, so an exception
  here leaves \<open>httpReq\<close> as it is.
\<close>

definition build_request :: "'j js \<Rightarrow> string \<Rightarrow> 'j config \<Rightarrow> js_error + HttpRequest" where
  "build_request js u config =
     (let method = (case cfg_method config of None \<Rightarrow> MethodString ''GET'' | Some m \<Rightarrow> m);
          body = (case cfg_body config of None \<Rightarrow> cfg_data config | Some b \<Rightarrow> Some b);
          headers = (case cfg_headers config of None \<Rightarrow> Headers [] | Some hs \<Rightarrow> hs);
          request = \<lparr>uri = u, req_method = Get, req_body = [], req_headers = []\<rparr>
      in case set_method js method request of
           Inl e \<Rightarrow> Inl e
         | Inr request1 \<Rightarrow>
             (case set_body js body headers request1 of
                Inl e \<Rightarrow> Inl e
              | Inr (request2, headers1) \<Rightarrow> set_headers headers1 request2))"

text \<open>
  \<open>httpReq\<close>. The transport is the host's \<open>http.request\<close>: it returns a response or
  throws with a message. The result is what the promise settles to (\<open>Inl\<close> the exception
  thrown) and, to state how often the transport is called, the requests handed to it.
  \<open>!url\<close> holds for a missing and for an empty URL; \<open>response.body ? ... : null\<close> takes
  the second branch for a missing and for an empty body. The \<open>try\<close> block holds the
  transport call and \<open>JSON.parse\<close>; what either throws is wrapped.
\<close>

definition httpReq ::
  "'j js \<Rightarrow> (HttpRequest \<Rightarrow> string + HttpResponse) \<Rightarrow> 'j config
     \<Rightarrow> (js_error + 'j http_result) \<times> HttpRequest list" where
  "httpReq js transport config =
     (case cfg_url config of
        None \<Rightarrow> (Inl (Error ''URL is required''), [])
      | Some u \<Rightarrow>
          if u = [] then (Inl (Error ''URL is required''), [])
          else
            (case build_request js u config of
               Inl e \<Rightarrow> (Inl e, [])
             | Inr request \<Rightarrow>
                 (case transport request of
                    Inl message \<Rightarrow> (Inl (Error (''HTTP request failed: '' @ message)), [request])
                  | Inr response \<Rightarrow>
                      if falsy (resp_body response) then
                        (Inr \<lparr>res_status = resp_status response, res_data = None,
                               res_headers = resp_headers response\<rparr>, [request])
                      else
                        (case resp_body response of
                           None \<Rightarrow>
                             (Inr \<lparr>res_status = resp_status response, res_data = None,
                                    res_headers = resp_headers response\<rparr>, [request])
                         | Some b \<Rightarrow>
                             (case JSON_parse js b of
                                Inl message \<Rightarrow>
                                  (Inl (Error (''HTTP request failed: '' @ message)), [request])
                              | Inr parsed \<Rightarrow>
                                  (Inr \<lparr>res_status = resp_status response, res_data = Some parsed,
                                         res_headers = resp_headers response\<rparr>, [request]))))))"

section \<open>Auxiliary notions for the proofs\<close>

text \<open>One step of the loop body, and the loop as a fold over the slots still to visit.\<close>

definition snap_step :: "item option \<Rightarrow> snapshot \<Rightarrow> snapshot" where
  "snap_step slot result =
     (case slot of None \<Rightarrow> result
      | Some item \<Rightarrow> Map_set (typeId item) (or0 (map_of result (typeId item)) + amount item) result)"

text \<open>The poll period is what \<open>adjustSystemInterval\<close> computes from the listeners.\<close>

definition period_ok :: "item_pickup \<Rightarrow> bool" where
  "period_ok s \<longleftrightarrow>
     systemIntervalTick s = foldl (\<lambda>m listener. min (tick listener) m) DEFAULT_TICK (listeners s)"

text \<open>The live recurring task is the one the module holds, and there was never more than one.\<close>

definition one_poller :: "item_pickup \<Rightarrow> bool" where
  "one_poller s \<longleftrightarrow>
     live (timer_calls s) = (case systemIntervalId s of None \<Rightarrow> [] | Some h \<Rightarrow> [h])
     \<and> (\<forall>p. prefix p (timer_calls s) \<longrightarrow> length (live p) \<le> 1)
     \<and> (\<forall>p h t. prefix (p @ [RunInterval h t]) (timer_calls s) \<longrightarrow> live p = [])"

text \<open>How often the listener at index \<open>i\<close> was invoked in a run.\<close>

definition fired_count :: "cycle \<Rightarrow> nat \<Rightarrow> nat" where
  "fired_count c i = length (filter (\<lambda>e. fst e = i) (c_fired c))"


text \<open>The state of the run and the cache after one player with an inventory was visited.\<close>

definition after_player ::
  "write_fault \<Rightarrow> player \<Rightarrow> container \<Rightarrow> (string \<times> snapshot) list \<Rightarrow> cycle \<Rightarrow> cycle" where
  "after_player fault p inventory cache c =
     fold (on_gain fault (p_name p)) (diff (map_of cache (p_name p)) (snapshotInventory inventory))
       (c\<lparr>c_host := (c_host c)\<lparr>h_inv := inventory\<rparr>\<rparr>)"

definition cache_after ::
  "player \<Rightarrow> container \<Rightarrow> (string \<times> snapshot) list \<Rightarrow> cycle \<Rightarrow> (string \<times> snapshot) list" where
  "cache_after p inventory cache c1 =
     (if c_thrown c1 = None then Map_set (p_name p) (snapshotInventory inventory) cache else cache)"


text \<open>A listener is due when its counter has reached its period.\<close>

definition due :: "listener \<Rightarrow> bool" where
  "due l \<longleftrightarrow> tick l \<le> counter l"

text \<open>What firing does to the counters when every due callback returns.\<close>

definition reset_due :: "listener \<Rightarrow> listener" where
  "reset_due l = (if due l then l\<lparr>counter := 0\<rparr> else l)"

text \<open>No callback of these listeners throws when it is handed the action \<open>a\<close>.\<close>

definition calm_for :: "action \<Rightarrow> listener list \<Rightarrow> bool" where
  "calm_for a ls \<longleftrightarrow> (\<forall>l\<in>set ls. \<forall>d h. fst (callback l d a h) = None)"

text \<open>Nothing was thrown and no listener is due.\<close>

definition quiet :: "cycle \<Rightarrow> bool" where
  "quiet c \<longleftrightarrow> c_thrown c = None \<and> (\<forall>l\<in>set (c_listeners c). \<not> due l)"

text \<open>
  The gain records of one cycle in the order the loops build them, when no exception ends
  the cycle: each player with an inventory is compared with the cache as the players before
  left it.
\<close>

fun cycle_gains :: "(string \<times> snapshot) list \<Rightarrow> player list \<Rightarrow> pickup_data list" where
  "cycle_gains cache [] = []"
| "cycle_gains cache (p # ps) =
     (case p_inventory p of
        None \<Rightarrow> cycle_gains cache ps
      | Some inventory \<Rightarrow>
          map (\<lambda>gain. \<lparr>d_typeId = fst gain, d_amount = snd gain, d_player = p_name p\<rparr>)
            (diff (map_of cache (p_name p)) (snapshotInventory inventory))
          @ cycle_gains (Map_set (p_name p) (snapshotInventory inventory) cache) ps)"

text \<open>A callback throws nothing as long as the action it is handed throws nothing.\<close>

definition relays :: "listener \<Rightarrow> bool" where
  "relays l \<longleftrightarrow> (\<forall>d a h. (\<forall>h'. fst (a h') = None) \<longrightarrow> fst (callback l d a h) = None)"

subsection \<open>Stand-ins for examples\<close>


definition take_back :: callback where
  "take_back = (\<lambda>data actions h. actions h)"

definition report :: callback where
  "report = (\<lambda>data actions h. (None, h\<lparr>h_console := h_console h @ [d_typeId data]\<rparr>))"

text \<open>A player holding two item types, and a host on which every write fails.\<close>

definition steve :: player where
  "steve = \<lparr>p_name = ''steve'',
             p_inventory = Some [Some \<lparr>typeId = ''A'', amount = 2\<rparr>, Some \<lparr>typeId = ''B'', amount = 1\<rparr>]\<rparr>"

definition locked :: write_fault where
  "locked = (\<lambda>inventory i v. Some ''locked'')"

text \<open>
  Stand-ins for the built-ins: the parser rejects the text \<open><html>\<close>, as \<open>JSON.parse\<close>
  does, and the serialiser rejects one object, as \<open>JSON.stringify\<close> does a cyclic one.
  Two transports: one answers every request with status 200 and that page, one refuses the
  connection. Two configurations: a URL alone, and a URL with an object body.
\<close>

definition example_js :: "string js" where
  "example_js = \<lparr>toUpperCase = (\<lambda>s. s),
                   JSON_stringify = (\<lambda>j. if j = ''cyclic'' then None else Some j),
                   JSON_parse = (\<lambda>s. if s = ''<html>'' then Inl ''Unexpected token <'' else Inr s)\<rparr>"

definition html_page :: "HttpRequest \<Rightarrow> string + HttpResponse" where
  "html_page = (\<lambda>request. Inr \<lparr>resp_status = 200, resp_body = Some ''<html>'', resp_headers = []\<rparr>)"

definition refused :: "HttpRequest \<Rightarrow> string + HttpResponse" where
  "refused = (\<lambda>request. Inl ''connection refused'')"

definition get_config :: "string option \<Rightarrow> string config" where
  "get_config u = \<lparr>cfg_url = u, cfg_method = None, cfg_data = None, cfg_body = None, cfg_headers = None\<rparr>"

definition post_config :: "string option \<Rightarrow> string \<Rightarrow> string config" where
  "post_config u obj = \<lparr>cfg_url = u, cfg_method = Some (MethodString ''post''), cfg_data = None,
                         cfg_body = Some (Object obj), cfg_headers = None\<rparr>"

section \<open>Properties of snapshots\<close>

lemma map_of_Map_set: "map_of (Map_set k v m) = (map_of m)(k \<mapsto> v)"
  by (induction m) (auto simp: fun_eq_iff)

lemma keys_Map_set:
  "map fst (Map_set k v m) = (if k \<in> fst ` set m then map fst m else map fst m @ [k])"
  by (induction m) (auto split: if_splits)

lemma distinct_Map_set: "distinct (map fst m) \<Longrightarrow> distinct (map fst (Map_set k v m))"
  by (simp add: keys_Map_set)

lemma snapshot_loop_fold:
  "snapshot_loop inventory i result = fold snap_step (drop i inventory) result"
proof (induction inventory i result rule: snapshot_loop.induct)
  case (1 inventory i result)
  show ?case
  proof (cases "i < length inventory")
    case False
    then show ?thesis by (simp add: snapshot_loop.simps [of inventory i])
  next
    case True
    then have d: "drop i inventory = inventory ! i # drop (Suc i) inventory"
      by (simp add: Cons_nth_drop_Suc)
    show ?thesis
    proof (cases "inventory ! i")
      case None
      with True 1(1) d show ?thesis
        by (simp add: snap_step_def snapshot_loop.simps [of inventory i])
    next
      case (Some item)
      with True 1(2) d show ?thesis
        by (simp add: snap_step_def snapshot_loop.simps [of inventory i])
    qed
  qed
qed

lemma snapshotInventory_fold: "snapshotInventory inventory = fold snap_step inventory []"
  by (simp add: snapshotInventory_def snapshot_loop_fold)

lemma fold_snap_step_lookup:
  "or0 (map_of (fold snap_step inventory result) t) = or0 (map_of result t) + held t inventory"
proof (induction inventory arbitrary: result)
  case Nil
  then show ?case by (simp add: held_def)
next
  case (Cons slot inventory)
  have "or0 (map_of (snap_step slot result) t) =
        or0 (map_of result t) + (case slot of None \<Rightarrow> 0 | Some item \<Rightarrow> if typeId item = t then amount item else 0)"
    by (cases slot) (simp_all add: snap_step_def map_of_Map_set or0_def)
  with Cons show ?case
    by (simp add: held_def)
qed

lemma fold_snap_step_dom:
  "dom (map_of (fold snap_step inventory result)) = dom (map_of result) \<union> types_in inventory"
proof (induction inventory arbitrary: result)
  case Nil
  then show ?case by (simp add: types_in_def)
next
  case (Cons slot inventory)
  have s: "dom (map_of (snap_step slot result)) =
           dom (map_of result) \<union> (case slot of None \<Rightarrow> {} | Some item \<Rightarrow> {typeId item})"
    by (cases slot) (simp_all add: snap_step_def map_of_Map_set)
  have t: "types_in (slot # inventory) =
           (case slot of None \<Rightarrow> {} | Some item \<Rightarrow> {typeId item}) \<union> types_in inventory"
    by (cases slot) (auto simp: types_in_def)
  show ?case
    by (simp only: fold_simps Cons.IH s t Un_assoc)
qed

lemma fold_snap_step_distinct:
  "distinct (map fst result) \<Longrightarrow> distinct (map fst (fold snap_step inventory result))"
proof (induction inventory arbitrary: result)
  case Nil
  then show ?case by simp
next
  case (Cons slot inventory)
  have "distinct (map fst (snap_step slot result))"
    using Cons.prems by (cases slot) (simp_all add: snap_step_def distinct_Map_set)
  with Cons.IH show ?case by simp
qed

lemma snapshot_lookup:
  "map_of (snapshotInventory inventory) t =
     (if t \<in> types_in inventory then Some (held t inventory) else None)"
proof (cases "t \<in> types_in inventory")
  case True
  have "dom (map_of (snapshotInventory inventory)) = types_in inventory"
    by (simp add: snapshotInventory_fold fold_snap_step_dom)
  with True obtain v where v: "map_of (snapshotInventory inventory) t = Some v"
    by blast
  have "or0 (map_of (snapshotInventory inventory) t) = held t inventory"
    by (simp add: snapshotInventory_fold fold_snap_step_lookup) (simp add: or0_def)
  with v True show ?thesis by (simp add: or0_def)
next
  case False
  have "dom (map_of (snapshotInventory inventory)) = types_in inventory"
    by (simp add: snapshotInventory_fold fold_snap_step_dom)
  with False show ?thesis by (metis domIff)
qed

lemma held_mset:
  assumes "mset inventory = mset inventory'"
  shows "held t inventory = held t inventory'"
proof -
  have a: "sum_list (map f xs) = sum_mset (image_mset f (mset xs))" for f :: "item option \<Rightarrow> int" and xs
    by (simp only: mset_map [symmetric] sum_mset_sum_list)
  show ?thesis
    by (simp only: held_def a assms)
qed

lemma types_in_mset: "mset inventory = mset inventory' \<Longrightarrow> types_in inventory = types_in inventory'"
  by (metis mset_eq_setD types_in_def)

text \<open>
  Claim C4. For every container, the snapshot maps each item type that occurs in a
  non-empty slot to the sum of that type's amounts over all slots, and has no entry for any
  other type; each type has one entry; two containers whose slots are permutations of each
  other have the same snapshot as a mapping from types to counts; an empty container gives
  the empty snapshot.
\<close>

theorem snapshot_sums_order_independent:
  "(\<forall>t. map_of (snapshotInventory inventory) t =
         (if t \<in> types_in inventory then Some (held t inventory) else None))
   \<and> distinct (map fst (snapshotInventory inventory))
   \<and> (mset inventory = mset inventory' \<longrightarrow>
        map_of (snapshotInventory inventory) = map_of (snapshotInventory inventory'))
   \<and> snapshotInventory [] = []"
proof (intro conjI allI impI)
  fix t
  show "map_of (snapshotInventory inventory) t =
         (if t \<in> types_in inventory then Some (held t inventory) else None)"
    by (rule snapshot_lookup)
next
  show "distinct (map fst (snapshotInventory inventory))"
    by (simp add: snapshotInventory_fold fold_snap_step_distinct)
next
  assume "mset inventory = mset inventory'"
  then show "map_of (snapshotInventory inventory) = map_of (snapshotInventory inventory')"
    by (simp add: fun_eq_iff snapshot_lookup held_mset [of inventory inventory'] types_in_mset [of inventory inventory'])
next
  show "snapshotInventory [] = []"
    by (simp add: snapshotInventory_def snapshot_loop.simps [of "[]"])
qed

theorem snapshot_sums_order_independent_witness:
  "mset [Some \<lparr>typeId = ''A'', amount = 3\<rparr>, None, Some \<lparr>typeId = ''B'', amount = 2\<rparr>,
          Some \<lparr>typeId = ''A'', amount = 1\<rparr>]
     = mset [Some \<lparr>typeId = ''B'', amount = 2\<rparr>, Some \<lparr>typeId = ''A'', amount = 1\<rparr>,
          Some \<lparr>typeId = ''A'', amount = 3\<rparr>, None]
   \<and> map_of (snapshotInventory [Some \<lparr>typeId = ''A'', amount = 3\<rparr>, None,
          Some \<lparr>typeId = ''B'', amount = 2\<rparr>, Some \<lparr>typeId = ''A'', amount = 1\<rparr>])
     = map_of (snapshotInventory [Some \<lparr>typeId = ''B'', amount = 2\<rparr>,
          Some \<lparr>typeId = ''A'', amount = 1\<rparr>, Some \<lparr>typeId = ''A'', amount = 3\<rparr>, None])
   \<and> map_of (snapshotInventory [Some \<lparr>typeId = ''A'', amount = 3\<rparr>, None,
          Some \<lparr>typeId = ''B'', amount = 2\<rparr>, Some \<lparr>typeId = ''A'', amount = 1\<rparr>]) ''A'' = Some 4"
proof -
  let ?i = "[Some \<lparr>typeId = ''A'', amount = 3\<rparr>, None, Some \<lparr>typeId = ''B'', amount = 2\<rparr>,
          Some \<lparr>typeId = ''A'', amount = 1\<rparr>]"
  let ?j = "[Some \<lparr>typeId = ''B'', amount = 2\<rparr>, Some \<lparr>typeId = ''A'', amount = 1\<rparr>,
          Some \<lparr>typeId = ''A'', amount = 3\<rparr>, None]"
  have m: "mset ?i = mset ?j"
    by (simp add: add_mset_commute)
  have t: "''A'' \<in> types_in ?i"
    unfolding types_in_def
    by (intro CollectI exI [of _ "\<lparr>typeId = ''A'', amount = 3\<rparr>"]) simp
  have h: "held ''A'' ?i = 4"
    by (simp add: held_def)
  note th = snapshot_sums_order_independent [of ?i ?j]
  from th m have e: "map_of (snapshotInventory ?i) = map_of (snapshotInventory ?j)"
    by blast
  from th have "map_of (snapshotInventory ?i) ''A'' =
      (if ''A'' \<in> types_in ?i then Some (held ''A'' ?i) else None)"
    by blast
  with t h have l: "map_of (snapshotInventory ?i) ''A'' = Some 4"
    by simp
  from m e l show ?thesis
    by (intro conjI)
qed

section \<open>Properties of the gain records\<close>

lemma diff_keys: "fst ` set (diff previous current) \<subseteq> fst ` set current"
  by (induction previous current rule: diff.induct) auto

lemma diff_distinct:
  "distinct (map fst current) \<Longrightarrow> distinct (map fst (diff previous current))"
proof (induction previous current rule: diff.induct)
  case (1 previous)
  then show ?case by simp
next
  case (2 previous t a current)
  have "t \<notin> fst ` set (diff previous current)"
    using 2(3) diff_keys [of previous current] by auto
  with 2 show ?case by simp
qed

lemma diff_member:
  "distinct (map fst current) \<Longrightarrow>
   (t, n) \<in> set (diff previous current) \<longleftrightarrow>
     (\<exists>c. map_of current t = Some c \<and> oldAmount previous t < c \<and> n = c - oldAmount previous t)"
proof (induction previous current rule: diff.induct)
  case (1 previous)
  then show ?case by simp
next
  case (2 previous t' a current)
  have notin: "t' \<notin> fst ` set (diff previous current)"
    using 2(3) diff_keys [of previous current] by auto
  show ?case
  proof (cases "t = t'")
    case True
    then have "(t, n) \<notin> set (diff previous current)"
      using notin by force
    with True show ?thesis by auto
  next
    case False
    with 2 show ?thesis by auto
  qed
qed

text \<open>
  Claim C3. With \<open>current\<close> a map (one entry per type), the records built are one per
  type at most, and there is a record \<open>(t, n)\<close> exactly when \<open>current\<close> holds a count
  for \<open>t\<close> that strictly exceeds the previous count (0 when the type or the whole previous
  snapshot is absent) and \<open>n\<close> is the difference. So a type that decreased, disappeared
  or stayed equal has no record.
\<close>

theorem diff_emits_exactly_the_increases:
  assumes "distinct (map fst current)"
  shows "distinct (map fst (diff previous current))
    \<and> (\<forall>t n. (t, n) \<in> set (diff previous current) \<longleftrightarrow>
          (\<exists>c. map_of current t = Some c \<and> oldAmount previous t < c
               \<and> n = c - oldAmount previous t))"
  using assms diff_distinct [of current previous] diff_member [of current _ _ previous]
  by blast

theorem diff_emits_exactly_the_increases_witness:
  "distinct (map fst [(''A'', 8::int), (''B'', 1), (''C'', 2)])
   \<and> (''A'', 3) \<in> set (diff (Some [(''A'', 5), (''C'', 2), (''D'', 9)]) [(''A'', 8), (''B'', 1), (''C'', 2)])
   \<and> (''C'', 0) \<notin> set (diff (Some [(''A'', 5), (''C'', 2), (''D'', 9)]) [(''A'', 8), (''B'', 1), (''C'', 2)])
   \<and> diff (Some [(''A'', 5), (''C'', 2), (''D'', 9)]) [(''A'', 8), (''B'', 1), (''C'', 2)]
       = [(''A'', 3), (''B'', 1)]"
proof -
  have d: "distinct (map fst [(''A'', 8::int), (''B'', 1), (''C'', 2)])"
    by simp
  from diff_emits_exactly_the_increases [OF d, of "Some [(''A'', 5), (''C'', 2), (''D'', 9)]"]
  show ?thesis
    by (simp add: oldAmount_def or0_def)
qed

section \<open>Properties of the removal\<close>

lemma setItem_no_fault: "setItem no_fault inventory i v = Inr (inventory[i := v])"
  by (simp add: setItem_def no_fault_def)

lemma remove_spec_nothing: "remaining \<le> 0 \<Longrightarrow> remove_spec tid remaining slots = slots"
  by (cases slots) simp_all

lemma remove_loop_no_fault:
  "i \<le> length inventory \<Longrightarrow>
   remove_loop no_fault tid inventory i remaining =
     (None, take i inventory @ remove_spec tid remaining (drop i inventory))"
proof (induction no_fault tid inventory i remaining rule: remove_loop.induct)
  case (1 tid inventory i remaining)
  show ?case
  proof (cases "i < length inventory \<and> remaining > 0")
    case False
    then show ?thesis
      using 1(5) by (auto simp: remove_loop.simps [of _ tid inventory i] remove_spec_nothing)
  next
    case True
    then have d: "drop i inventory = inventory ! i # drop (Suc i) inventory"
      and t: "take (Suc i) inventory = take i inventory @ [inventory ! i]"
      by (simp_all add: Cons_nth_drop_Suc take_Suc_conv_app_nth)
    show ?thesis
    proof (cases "inventory ! i")
      case None
      with True 1(1) d t show ?thesis
        by (simp add: remove_loop.simps [of _ tid inventory i])
    next
      case (Some item)
      show ?thesis
      proof (cases "typeId item = tid")
        case False
        with Some True 1(4) d t show ?thesis
          by (simp add: remove_loop.simps [of _ tid inventory i])
      next
        case match: True
        show ?thesis
        proof (cases "amount item \<le> remaining")
          case True
          have "remove_loop no_fault tid (inventory[i := None]) (Suc i) (remaining - amount item) =
                (None, take (Suc i) (inventory[i := None]) @
                   remove_spec tid (remaining - amount item) (drop (Suc i) (inventory[i := None])))"
            using 1(2) [OF \<open>i < length inventory \<and> remaining > 0\<close> Some match True setItem_no_fault]
              \<open>i < length inventory \<and> remaining > 0\<close> by simp
          with Some match True \<open>i < length inventory \<and> remaining > 0\<close> d show ?thesis
            by (simp add: remove_loop.simps [of _ tid inventory i] setItem_no_fault
                  take_Suc_conv_app_nth)
        next
          case False
          have "remove_loop no_fault tid (inventory[i := Some (item\<lparr>amount := amount item - remaining\<rparr>)]) (Suc i) 0 =
                (None, take (Suc i) (inventory[i := Some (item\<lparr>amount := amount item - remaining\<rparr>)]) @
                   remove_spec tid 0 (drop (Suc i) (inventory[i := Some (item\<lparr>amount := amount item - remaining\<rparr>)])))"
            using 1(3) [OF \<open>i < length inventory \<and> remaining > 0\<close> Some match False setItem_no_fault]
              \<open>i < length inventory \<and> remaining > 0\<close> by simp
          with Some match False \<open>i < length inventory \<and> remaining > 0\<close> d show ?thesis
            by (simp add: remove_loop.simps [of _ tid inventory i] setItem_no_fault
                  take_Suc_conv_app_nth remove_spec_nothing)
        qed
      qed
    qed
  qed
qed

lemma held_Cons:
  "held t (slot # slots) =
     (case slot of None \<Rightarrow> 0 | Some item \<Rightarrow> if typeId item = t then amount item else 0) + held t slots"
  by (simp add: held_def)

lemma held_Nil: "held t [] = 0"
  by (simp add: held_def)

lemma held_nonneg:
  "\<forall>item. Some item \<in> set slots \<and> typeId item = t \<longrightarrow> 0 \<le> amount item \<Longrightarrow> 0 \<le> held t slots"
  by (induction slots) (auto simp: held_Nil held_Cons split: option.splits)

lemma held_remove_spec:
  "0 \<le> remaining \<Longrightarrow>
   \<forall>item. Some item \<in> set slots \<and> typeId item = tid \<longrightarrow> 0 \<le> amount item \<Longrightarrow>
   held tid (remove_spec tid remaining slots) = held tid slots - min remaining (held tid slots)"
proof (induction slots arbitrary: remaining)
  case Nil
  then show ?case by (simp add: held_def)
next
  case (Cons slot slots)
  have nn: "0 \<le> held tid slots"
    using Cons.prems(2) by (intro held_nonneg) auto
  have rest: "\<forall>item. Some item \<in> set slots \<and> typeId item = tid \<longrightarrow> 0 \<le> amount item"
    using Cons.prems(2) by auto
  show ?case
  proof (cases "remaining \<le> 0")
    case True
    with Cons.prems(1) have "remaining = 0" by simp
    moreover have "0 \<le> held tid (slot # slots)"
      using Cons.prems(2) by (rule held_nonneg)
    ultimately show ?thesis by simp
  next
    case pos: False
    show ?thesis
    proof (cases slot)
      case None
      with pos Cons.IH [OF Cons.prems(1) rest] show ?thesis
        by (simp add: held_Cons)
    next
      case (Some item)
      show ?thesis
      proof (cases "typeId item = tid")
        case False
        with Some pos Cons.IH [OF Cons.prems(1) rest] show ?thesis
          by (simp add: held_Cons)
      next
        case match: True
        have a: "0 \<le> amount item"
          using Cons.prems(2) Some match by auto
        show ?thesis
        proof (cases "amount item \<le> remaining")
          case True
          then have "0 \<le> remaining - amount item" by simp
          from Cons.IH [OF this rest] Some match True pos show ?thesis
            by (simp add: held_Cons min_def)
        next
          case False
          with Some match pos nn show ?thesis
            by (simp add: held_Cons min_def)
        qed
      qed
    qed
  qed
qed

lemma held_remove_spec_other:
  "t \<noteq> tid \<Longrightarrow> held t (remove_spec tid remaining slots) = held t slots"
  by (induction slots arbitrary: remaining) (auto simp: held_Cons split: option.splits)

lemma length_remove_spec: "length (remove_spec tid remaining slots) = length slots"
  by (induction slots arbitrary: remaining) (auto split: option.splits)

text \<open>
  Claim C5. On a host whose writes succeed, with a non-negative amount to remove and
  non-negative amounts in the matching slots, the loop computes exactly the scan of the
  specification (ascending slots, a matching slot cleared when its amount is at most what
  remains, otherwise decremented by what remains, stopping when nothing remains or the slots
  are exhausted); it throws nothing, also when more is requested than is held; the amount
  of the type held drops by the minimum of the request and what was held; the other types
  and the slot count are untouched.
\<close>

theorem remove_takes_min:
  assumes "0 \<le> amountToRemove"
    and "\<forall>item. Some item \<in> set inventory \<and> typeId item = tid \<longrightarrow> 0 \<le> amount item"
  shows "removeItemsFromInventory no_fault tid amountToRemove inventory =
           (None, remove_spec tid amountToRemove inventory)
    \<and> held tid inventory - held tid (snd (removeItemsFromInventory no_fault tid amountToRemove inventory))
        = min amountToRemove (held tid inventory)
    \<and> (\<forall>t. t \<noteq> tid \<longrightarrow>
          held t (snd (removeItemsFromInventory no_fault tid amountToRemove inventory)) = held t inventory)
    \<and> length (snd (removeItemsFromInventory no_fault tid amountToRemove inventory)) = length inventory"
proof -
  have r: "removeItemsFromInventory no_fault tid amountToRemove inventory =
           (None, remove_spec tid amountToRemove inventory)"
    by (simp add: removeItemsFromInventory_def remove_loop_no_fault)
  show ?thesis
    by (simp add: r held_remove_spec [OF assms] held_remove_spec_other length_remove_spec)
qed

theorem remove_takes_min_witness:
  "(0::int) \<le> 5
   \<and> removeItemsFromInventory no_fault ''A'' 5
        [Some \<lparr>typeId = ''A'', amount = 2\<rparr>, Some \<lparr>typeId = ''B'', amount = 7\<rparr>,
         Some \<lparr>typeId = ''A'', amount = 4\<rparr>]
      = (None, [None, Some \<lparr>typeId = ''B'', amount = 7\<rparr>, Some \<lparr>typeId = ''A'', amount = 1\<rparr>])
   \<and> held ''A'' [Some \<lparr>typeId = ''A'', amount = 2\<rparr>, Some \<lparr>typeId = ''B'', amount = 7\<rparr>,
         Some \<lparr>typeId = ''A'', amount = 4\<rparr>]
       - held ''A'' (snd (removeItemsFromInventory no_fault ''A'' 5
        [Some \<lparr>typeId = ''A'', amount = 2\<rparr>, Some \<lparr>typeId = ''B'', amount = 7\<rparr>,
         Some \<lparr>typeId = ''A'', amount = 4\<rparr>])) = 5"
proof -
  let ?i = "[Some \<lparr>typeId = ''A'', amount = 2\<rparr>, Some \<lparr>typeId = ''B'', amount = 7\<rparr>,
         Some \<lparr>typeId = ''A'', amount = 4\<rparr>]"
  have a: "(0::int) \<le> 5" by simp
  have b: "\<forall>item. Some item \<in> set ?i \<and> typeId item = ''A'' \<longrightarrow> 0 \<le> amount item"
    by auto
  from remove_takes_min [OF a b] show ?thesis
    by (simp add: held_def)
qed

section \<open>Properties of the scheduler\<close>

lemma foldl_min_tick:
  "foldl (\<lambda>m listener. min (tick listener) m) a ls = Min (insert a (tick ` set ls))"
proof (induction ls arbitrary: a)
  case Nil
  then show ?case by simp
next
  case (Cons l ls)
  have "Min (insert (min (tick l) a) (tick ` set ls)) = Min (insert a (insert (tick l) (tick ` set ls)))"
    by (cases "tick ` set ls = {}") (simp_all add: min.commute min.left_commute)
  with Cons show ?case by simp
qed

lemma startSystemInterval_fields:
  "listeners (startSystemInterval s) = listeners s"
  "systemIntervalTick (startSystemInterval s) = systemIntervalTick s"
  by (simp_all add: startSystemInterval_def Let_def split: option.splits)

lemma adjustSystemInterval_fields:
  "listeners (adjustSystemInterval s) = listeners s"
  "systemIntervalTick (adjustSystemInterval s) =
     foldl (\<lambda>m listener. min (tick listener) m) DEFAULT_TICK (listeners s)"
  by (simp_all add: adjustSystemInterval_def startSystemInterval_fields Let_def split: option.splits)

lemma period_ok_listen: "listen s cb t = Inr s' \<Longrightarrow> period_ok s'"
  by (auto simp: listen_def period_ok_def startSystemInterval_fields adjustSystemInterval_fields
      split: option.splits tick_arg.splits if_splits)

lemma period_ok_listens: "period_ok s \<Longrightarrow> period_ok (listens s calls)"
proof (induction calls arbitrary: s)
  case Nil
  then show ?case by simp
next
  case (Cons call calls)
  obtain cb t where call: "call = (cb, t)" by (cases call)
  show ?case
  proof (cases "listen s cb t")
    case (Inl e)
    with Cons call show ?thesis by simp
  next
    case (Inr s')
    with Cons.IH [OF period_ok_listen [OF Inr]] call show ?thesis by simp
  qed
qed

text \<open>
  What \<open>adjustSystemInterval\<close> computes: after any sequence of registrations, accepted
  or rejected, the poll period is the minimum of the default period 10 and the periods of
  all registered listeners, since the \<open>reduce\<close> starts from the default. So the poll
  period never exceeds 10, whatever periods are registered.
\<close>

lemma poll_period_is_capped_minimum:
  "systemIntervalTick (listens init calls) =
     Min (insert DEFAULT_TICK (tick ` set (listeners (listens init calls))))"
proof -
  have "period_ok init"
    by (simp add: period_ok_def init_def)
  then have "period_ok (listens init calls)"
    by (rule period_ok_listens)
  then show ?thesis
    by (simp add: period_ok_def foldl_min_tick)
qed

lemma live_after_snoc:
  "live_after hs (calls @ [e]) =
     (case e of RunInterval h t \<Rightarrow> live_after hs calls @ [h]
      | ClearRun h \<Rightarrow> removeAll h (live_after hs calls))"
  by (induction hs calls rule: live_after.induct) (simp_all split: host_call.splits)

lemma live_snoc_run: "live (calls @ [RunInterval h t]) = live calls @ [h]"
  and live_snoc_clear: "live (calls @ [ClearRun h]) = removeAll h (live calls)"
  by (simp_all add: live_def live_after_snoc)

lemma one_poller_start: "one_poller s \<Longrightarrow> one_poller (startSystemInterval s)"
proof (cases "systemIntervalId s")
  case (Some h)
  assume "one_poller s"
  with Some show ?thesis by (simp add: startSystemInterval_def)
next
  case None
  assume a: "one_poller s"
  with None have l: "live (timer_calls s) = []"
    by (simp add: one_poller_def)
  from a have p1: "\<And>p. prefix p (timer_calls s) \<Longrightarrow> length (live p) \<le> 1"
    and p2: "\<And>p h t. prefix (p @ [RunInterval h t]) (timer_calls s) \<Longrightarrow> live p = []"
    by (auto simp: one_poller_def)
  show ?thesis
    using None l p1 p2
    by (auto simp: one_poller_def startSystemInterval_def Let_def live_snoc_run prefix_snoc)
qed

lemma one_poller_clear:
  assumes "one_poller s" and "systemIntervalId s = Some h"
  shows "one_poller (s\<lparr>timer_calls := timer_calls s @ [ClearRun h], systemIntervalId := None\<rparr>)"
proof -
  from assms have l: "live (timer_calls s) = [h]"
    by (simp add: one_poller_def)
  from assms have p1: "\<And>p. prefix p (timer_calls s) \<Longrightarrow> length (live p) \<le> 1"
    and p2: "\<And>p h t. prefix (p @ [RunInterval h t]) (timer_calls s) \<Longrightarrow> live p = []"
    by (auto simp: one_poller_def)
  show ?thesis
    using l p1 p2
    by (auto simp: one_poller_def live_snoc_clear prefix_snoc)
qed

lemma one_poller_update:
  "one_poller (s\<lparr>systemIntervalTick := n\<rparr>) = one_poller s"
  "one_poller (s\<lparr>listeners := ls\<rparr>) = one_poller s"
  by (simp_all add: one_poller_def)

lemma one_poller_adjust: "one_poller s \<Longrightarrow> one_poller (adjustSystemInterval s)"
proof -
  assume a: "one_poller s"
  let ?m = "foldl (\<lambda>m listener. min (tick listener) m) DEFAULT_TICK (listeners s)"
  show ?thesis
  proof (cases "?m = systemIntervalTick s")
    case True
    with a show ?thesis by (simp add: adjustSystemInterval_def)
  next
    case False
    show ?thesis
    proof (cases "systemIntervalId s")
      case None
      with False a show ?thesis
        by (simp add: adjustSystemInterval_def Let_def one_poller_update)
    next
      case (Some h)
      have "one_poller (s\<lparr>systemIntervalTick := ?m\<rparr>)"
        using a by (simp add: one_poller_update)
      moreover have "systemIntervalId (s\<lparr>systemIntervalTick := ?m\<rparr>) = Some h"
        using Some by simp
      ultimately have "one_poller (startSystemInterval
          ((s\<lparr>systemIntervalTick := ?m\<rparr>)
             \<lparr>timer_calls := timer_calls (s\<lparr>systemIntervalTick := ?m\<rparr>) @ [ClearRun h],
               systemIntervalId := None\<rparr>))"
        by (intro one_poller_start one_poller_clear)
      with False Some show ?thesis
        by (simp add: adjustSystemInterval_def Let_def)
    qed
  qed
qed

lemma one_poller_listen: "one_poller s \<Longrightarrow> listen s cb t = Inr s' \<Longrightarrow> one_poller s'"
  by (auto simp: listen_def one_poller_update
      intro!: one_poller_start one_poller_adjust
      split: option.splits tick_arg.splits if_splits)

lemma one_poller_listens: "one_poller s \<Longrightarrow> one_poller (listens s calls)"
proof (induction calls arbitrary: s)
  case Nil
  then show ?case by simp
next
  case (Cons call calls)
  obtain cb t where call: "call = (cb, t)" by (cases call)
  show ?case
  proof (cases "listen s cb t")
    case (Inl e)
    with Cons call show ?thesis by simp
  next
    case (Inr s')
    with Cons.IH [OF one_poller_listen [OF Cons.prems Inr]] call show ?thesis by simp
  qed
qed

text \<open>
  Claim C6. For every sequence of registrations, at every moment of the history of calls to
  the host scheduler at most one recurring task is live; every call of \<open>runInterval\<close>
  is made when no task is live, so a restart has cancelled the old task before it creates
  the new one; and at the end the live task is the one whose handle the module holds.
\<close>

theorem at_most_one_recurring_poll:
  "(\<forall>p. prefix p (timer_calls (listens init calls)) \<longrightarrow> length (live p) \<le> 1)
   \<and> (\<forall>p h t. prefix (p @ [RunInterval h t]) (timer_calls (listens init calls)) \<longrightarrow> live p = [])
   \<and> live (timer_calls (listens init calls)) =
       (case systemIntervalId (listens init calls) of None \<Rightarrow> [] | Some h \<Rightarrow> [h])"
proof -
  have "one_poller init"
    by (simp add: one_poller_def init_def live_def)
  then have "one_poller (listens init calls)"
    by (rule one_poller_listens)
  then show ?thesis
    by (simp add: one_poller_def)
qed

lemma listens_example:
  "timer_calls (listens init
      [(Some (\<lambda>data actions h. (None, h)), Integer 20),
       (Some (\<lambda>data actions h. (None, h)), Integer 5),
       (None, Undefined),
       (Some (\<lambda>data actions h. (None, h)), Integer 7)])
   = [RunInterval 0 10, ClearRun 0, RunInterval 1 5]"
  by (simp add: listen_def init_def DEFAULT_TICK_def adjustSystemInterval_def
      startSystemInterval_def Let_def fresh_handle_def)

theorem at_most_one_recurring_poll_witness:
  "prefix ([RunInterval 0 10, ClearRun 0] @ [RunInterval 1 5])
     (timer_calls (listens init
      [(Some (\<lambda>data actions h. (None, h)), Integer 20),
       (Some (\<lambda>data actions h. (None, h)), Integer 5),
       (None, Undefined),
       (Some (\<lambda>data actions h. (None, h)), Integer 7)]))
   \<and> live [RunInterval 0 10, ClearRun 0] = []
   \<and> length (live ([RunInterval 0 10, ClearRun 0] @ [RunInterval 1 5])) \<le> 1"
proof -
  let ?calls = "[(Some (\<lambda>data actions h. (None, h)), Integer 20),
       (Some (\<lambda>data actions h. (None, h)), Integer 5),
       (None, Undefined),
       (Some (\<lambda>data actions h. (None, h)), Integer 7)]"
  have p: "prefix ([RunInterval 0 10, ClearRun 0] @ [RunInterval 1 5]) (timer_calls (listens init ?calls))"
    by (simp only: listens_example) simp
  from at_most_one_recurring_poll [of ?calls] p show ?thesis
    by blast
qed

section \<open>Properties of the poll cycle\<close>

lemma fired_count_simps:
  "fired_count (c\<lparr>c_host := h\<rparr>) j = fired_count c j"
  "fired_count (c\<lparr>c_listeners := ls\<rparr>) j = fired_count c j"
  "fired_count (c\<lparr>c_thrown := e\<rparr>) j = fired_count c j"
  "fired_count (c\<lparr>c_fired := c_fired c @ [(i, d)]\<rparr>) j = fired_count c j + (if i = j then 1 else 0)"
  by (simp_all add: fired_count_def)






lemma poll_players_cycle_Cons:
  "snd (snd (poll_players fault (p # ps) cache c)) =
     (case c_thrown c of
        Some e \<Rightarrow> c
      | None \<Rightarrow>
          (case p_inventory p of
             None \<Rightarrow> snd (snd (poll_players fault ps cache c))
           | Some inventory \<Rightarrow>
               snd (snd (poll_players fault ps
                 (cache_after p inventory cache (after_player fault p inventory cache c))
                 (after_player fault p inventory cache c)))))"
  by (simp add: Let_def after_player_def cache_after_def split: option.splits prod.splits)





lemma poll_listeners:
  "listeners (fst (poll fault s players console)) = c_listeners (snd (snd (poll fault s players console)))"
  by (simp add: poll_def split: prod.splits)





section \<open>Delivery of the gains of a cycle\<close>

lemma fire_not_due:
  "\<not> due (c_listeners c ! i) \<Longrightarrow> fire d a i c = c"
  by (simp add: fire_def due_def Let_def split: option.splits)

lemma fire_due:
  assumes "c_thrown c = None" and "due (c_listeners c ! i)"
    and "fst (callback (c_listeners c ! i) d a (c_host c)) = None"
  shows "c_thrown (fire d a i c) = None"
    and "c_listeners (fire d a i c) = (c_listeners c)[i := (c_listeners c ! i)\<lparr>counter := 0\<rparr>]"
    and "c_fired (fire d a i c) = c_fired c @ [(i, d)]"
    and "c_host (fire d a i c) = snd (callback (c_listeners c ! i) d a (c_host c))"
  using assms
  by (auto simp: fire_def due_def Let_def split: option.splits prod.splits)

lemma remove_never_throws: "fst (remove fault tid n h) = None"
  by (simp add: remove_def split: prod.splits option.splits)

lemma relays_calm_for:
  "\<forall>l\<in>set ls. relays l \<Longrightarrow> calm_for (remove fault tid n) ls"
  by (simp add: calm_for_def relays_def remove_never_throws)

lemma fire_calm:
  assumes "c_thrown c = None" and "i < length (c_listeners c)" and "calm_for a (c_listeners c)"
  shows "c_thrown (fire d a i c) = None"
    and "c_listeners (fire d a i c) = (c_listeners c)[i := reset_due (c_listeners c ! i)]"
    and "c_fired (fire d a i c) = c_fired c @ (if due (c_listeners c ! i) then [(i, d)] else [])"
    and "c_host (fire d a i c) =
           (if due (c_listeners c ! i) then snd (callback (c_listeners c ! i) d a (c_host c)) else c_host c)"
proof -
  have n: "fst (callback (c_listeners c ! i) d a (c_host c)) = None"
    using assms(2,3) by (simp add: calm_for_def)
  show "c_thrown (fire d a i c) = None"
    using assms(1) fire_due(1) [OF assms(1) _ n] fire_not_due [of c i d a]
    by (cases "due (c_listeners c ! i)") simp_all
  show "c_listeners (fire d a i c) = (c_listeners c)[i := reset_due (c_listeners c ! i)]"
    using fire_due(2) [OF assms(1) _ n] fire_not_due [of c i d a]
    by (cases "due (c_listeners c ! i)") (simp_all add: reset_due_def)
  show "c_fired (fire d a i c) = c_fired c @ (if due (c_listeners c ! i) then [(i, d)] else [])"
    using fire_due(3) [OF assms(1) _ n] fire_not_due [of c i d a]
    by (cases "due (c_listeners c ! i)") simp_all
  show "c_host (fire d a i c) =
           (if due (c_listeners c ! i) then snd (callback (c_listeners c ! i) d a (c_host c)) else c_host c)"
    using fire_due(4) [OF assms(1) _ n] fire_not_due [of c i d a]
    by (cases "due (c_listeners c ! i)") simp_all
qed

lemma update_prefix_map:
  "k < length ls \<Longrightarrow>
   (map f (take k ls) @ drop k ls)[k := f (ls ! k)] = map f (take (Suc k) ls) @ drop (Suc k) ls"
  by (simp add: take_Suc_conv_app_nth list_update_append Cons_nth_drop_Suc [symmetric])

lemma fold_fire_calm:
  assumes "c_thrown c = None" and "calm_for a (c_listeners c)"
  shows "k \<le> length (c_listeners c) \<Longrightarrow>
     c_thrown (fold (fire d a) [0..<k] c) = None
     \<and> c_listeners (fold (fire d a) [0..<k] c) = map reset_due (take k (c_listeners c)) @ drop k (c_listeners c)
     \<and> c_fired (fold (fire d a) [0..<k] c) =
         c_fired c @ map (\<lambda>i. (i, d)) (filter (\<lambda>i. due (c_listeners c ! i)) [0..<k])
     \<and> c_host (fold (fire d a) [0..<k] c) =
         fold (\<lambda>l h. snd (callback l d a h)) (filter due (take k (c_listeners c))) (c_host c)"
proof (induction k)
  case 0
  with assms show ?case by simp
next
  case (Suc k)
  let ?ls = "c_listeners c"
  let ?ck = "fold (fire d a) [0..<k] c"
  from Suc have k: "k < length ?ls" by simp
  from Suc have t: "c_thrown ?ck = None"
    and l: "c_listeners ?ck = map reset_due (take k ?ls) @ drop k ?ls"
    and f: "c_fired ?ck = c_fired c @ map (\<lambda>i. (i, d)) (filter (\<lambda>i. due (?ls ! i)) [0..<k])"
    and hk: "c_host ?ck = fold (\<lambda>l h. snd (callback l d a h)) (filter due (take k ?ls)) (c_host c)"
    by simp_all
  have len: "k < length (c_listeners ?ck)"
    using k l by simp
  have nth: "c_listeners ?ck ! k = ?ls ! k"
    using k l by (simp add: nth_append)
  have cm: "calm_for a (c_listeners ?ck)"
    using assms(2) unfolding calm_for_def l
    by (auto simp: reset_due_def dest: in_set_takeD in_set_dropD)
  have s: "fold (fire d a) [0..<Suc k] c = fire d a k ?ck"
    by simp
  note fc = fire_calm [OF t len cm, of d, unfolded nth]
  have u: "(c_listeners ?ck)[k := reset_due (?ls ! k)] = map reset_due (take (Suc k) ?ls) @ drop (Suc k) ?ls"
    unfolding l using k by (rule update_prefix_map)
  have tk: "take (Suc k) ?ls = take k ?ls @ [?ls ! k]"
    using k by (rule take_Suc_conv_app_nth)
  have hs: "c_host (fire d a k ?ck) =
      fold (\<lambda>l h. snd (callback l d a h)) (filter due (take (Suc k) ?ls)) (c_host c)"
    unfolding fc(4) tk hk by simp
  show ?case
    unfolding s
    using fc(1) fc(2) [unfolded u] fc(3) [unfolded f] hs
    by simp
qed

lemma notify_calm:
  assumes "c_thrown c = None" and "calm_for a (c_listeners c)"
  shows "c_thrown (notify d a c) = None"
    and "c_listeners (notify d a c) = map reset_due (c_listeners c)"
    and "c_fired (notify d a c) =
           c_fired c @ map (\<lambda>i. (i, d)) (filter (\<lambda>i. due (c_listeners c ! i)) [0..<length (c_listeners c)])"
    and "c_host (notify d a c) =
           fold (\<lambda>l h. snd (callback l d a h)) (filter due (c_listeners c)) (c_host c)"
  using fold_fire_calm [OF assms, of "length (c_listeners c)" d]
  by (simp_all add: notify_def)

lemma fold_fire_quiet:
  "\<forall>i\<in>set is. i < length (c_listeners c) \<Longrightarrow> \<forall>l\<in>set (c_listeners c). \<not> due l \<Longrightarrow>
   fold (fire d a) is c = c"
  by (induction "is") (simp_all add: fire_not_due)

lemma notify_quiet: "quiet c \<Longrightarrow> notify d a c = c"
  by (simp add: notify_def quiet_def fold_fire_quiet)

lemma gains_quiet: "quiet c \<Longrightarrow> fold (on_gain fault pname) gains c = c"
  by (induction gains) (simp_all add: on_gain_def notify_quiet)

lemma quiet_host: "quiet (c\<lparr>c_host := h\<rparr>) = quiet c"
  by (simp add: quiet_def)

lemma after_player_quiet:
  "quiet c \<Longrightarrow> after_player fault p inventory cache c = c\<lparr>c_host := (c_host c)\<lparr>h_inv := inventory\<rparr>\<rparr>"
  by (simp add: after_player_def gains_quiet quiet_host)

lemma poll_players_quiet:
  "quiet c \<Longrightarrow>
   c_thrown (snd (snd (poll_players fault ps cache c))) = None
   \<and> c_listeners (snd (snd (poll_players fault ps cache c))) = c_listeners c
   \<and> c_fired (snd (snd (poll_players fault ps cache c))) = c_fired c"
proof (induction ps arbitrary: cache c)
  case Nil
  then show ?case by (simp add: quiet_def)
next
  case (Cons p ps)
  have q: "quiet (c\<lparr>c_host := h\<rparr>)" for h
    using Cons.prems by (simp add: quiet_host)
  show ?case
    unfolding poll_players_cycle_Cons
    using Cons.prems Cons.IH [OF Cons.prems] Cons.IH [OF q]
    by (simp add: after_player_quiet split: option.splits) (simp add: quiet_def)
qed

lemma quiet_after_notify:
  assumes "c_thrown c = None" and "calm_for a (c_listeners c)" and "\<forall>l\<in>set (c_listeners c). 1 \<le> tick l"
  shows "quiet (notify d a c)"
  using assms notify_calm(1,2) [OF assms(1,2), of d]
  by (auto simp: quiet_def reset_due_def due_def)

lemma poll_players_calm:
  assumes "\<forall>l\<in>set (c_listeners c). relays l" and "\<forall>l\<in>set (c_listeners c). 1 \<le> tick l"
    and "c_thrown c = None"
  shows "c_thrown (snd (snd (poll_players fault ps cache c))) = None
    \<and> c_listeners (snd (snd (poll_players fault ps cache c))) =
        (if cycle_gains cache ps = [] then c_listeners c else map reset_due (c_listeners c))
    \<and> c_fired (snd (snd (poll_players fault ps cache c))) =
        c_fired c @ (case cycle_gains cache ps of
                       [] \<Rightarrow> []
                     | d # ds \<Rightarrow> map (\<lambda>i. (i, d))
                         (filter (\<lambda>i. due (c_listeners c ! i)) [0..<length (c_listeners c)]))"
  using assms
proof (induction ps arbitrary: cache c)
  case Nil
  then show ?case by simp
next
  case (Cons p ps)
  show ?case
  proof (cases "p_inventory p")
    case None
    with Cons.IH [OF Cons.prems, of cache] Cons.prems(3) show ?thesis
      unfolding poll_players_cycle_Cons by simp
  next
    case (Some inventory)
    let ?c0 = "c\<lparr>c_host := (c_host c)\<lparr>h_inv := inventory\<rparr>\<rparr>"
    let ?gs = "diff (map_of cache (p_name p)) (snapshotInventory inventory)"
    let ?cache' = "Map_set (p_name p) (snapshotInventory inventory) cache"
    have c0: "\<forall>l\<in>set (c_listeners ?c0). relays l" "\<forall>l\<in>set (c_listeners ?c0). 1 \<le> tick l" "c_thrown ?c0 = None"
      using Cons.prems by simp_all
    have e: "c_listeners ?c0 = c_listeners c" "c_fired ?c0 = c_fired c"
      by simp_all
    show ?thesis
    proof (cases ?gs)
      case Nil
      then have ap: "after_player fault p inventory cache c = ?c0"
        by (simp add: after_player_def)
      have ca: "cache_after p inventory cache ?c0 = ?cache'"
        using Cons.prems(3) by (simp add: cache_after_def)
      from Cons.IH [OF c0, of ?cache', unfolded e] Nil Some Cons.prems(3) show ?thesis
        unfolding poll_players_cycle_Cons by (simp add: ap ca)
    next
      case (Cons g gs')
      let ?d = "\<lparr>d_typeId = fst g, d_amount = snd g, d_player = p_name p\<rparr>"
      let ?c1 = "notify ?d (remove fault (fst g) (snd g)) ?c0"
      have cf: "calm_for (remove fault (fst g) (snd g)) (c_listeners ?c0)"
        using c0(1) by (rule relays_calm_for)
      have q: "quiet ?c1"
        using c0(3) cf c0(2) by (rule quiet_after_notify)
      have ap: "after_player fault p inventory cache c = ?c1"
        using Cons q by (simp add: after_player_def on_gain_def gains_quiet)
      have ca: "cache_after p inventory cache ?c1 = ?cache'"
        using q by (simp add: cache_after_def quiet_def)
      have g: "cycle_gains cache (p # ps) = ?d # map (\<lambda>gain. \<lparr>d_typeId = fst gain, d_amount = snd gain, d_player = p_name p\<rparr>) gs'
                 @ cycle_gains ?cache' ps"
        using Some Cons by simp
      from poll_players_quiet [OF q, of fault ps ?cache']
        notify_calm(1,2,3) [OF c0(3) cf, of ?d, unfolded e]
        Some \<open>c_thrown c = None\<close>
      show ?thesis
        unfolding poll_players_cycle_Cons g by (simp add: ap ca)
    qed
  qed
qed

text \<open>
  What a whole cycle delivers when the callbacks throw only what the action they are handed
  throws (periods at least 1, as \<open>listen\<close> enforces): the listeners that are due are
  invoked for the first gain record of the cycle and for no later one, because the counter
  reset by the first invocation is below the period; the later records are built and then
  dropped.
\<close>

lemma cycle_delivers_first_gain_only:
  assumes "\<forall>l\<in>set (listeners s). 1 \<le> tick l"
    and "\<forall>l\<in>set (listeners s). relays l"
  shows "c_thrown (snd (snd (poll fault s players console))) = None
    \<and> c_fired (snd (snd (poll fault s players console))) =
        (case cycle_gains (playerCache s) players of
           [] \<Rightarrow> []
         | d # ds \<Rightarrow>
             map (\<lambda>i. (i, d))
               (filter (\<lambda>i. tick (listeners s ! i) \<le> counter (listeners s ! i) + systemIntervalTick s)
                  [0..<length (listeners s)]))
    \<and> listeners (fst (poll fault s players console)) =
        map (\<lambda>l. if cycle_gains (playerCache s) players \<noteq> []
                      \<and> tick l \<le> counter l + systemIntervalTick s
                  then l\<lparr>counter := 0\<rparr>
                  else l\<lparr>counter := counter l + systemIntervalTick s\<rparr>) (listeners s)"
proof -
  let ?adv = "map (\<lambda>l. l\<lparr>counter := counter l + systemIntervalTick s\<rparr>) (listeners s)"
  let ?start = "\<lparr>c_listeners = ?adv, c_host = \<lparr>h_inv = [], h_console = console\<rparr>, c_fired = [], c_thrown = None\<rparr>"
  let ?fin = "snd (snd (poll_players fault players (playerCache s) ?start))"
  have p: "snd (snd (poll fault s players console)) = ?fin"
    by (simp add: poll_def split: prod.splits)
  have a: "\<forall>l\<in>set (c_listeners ?start). relays l"
    using assms(2) by (auto simp: relays_def)
  have b: "\<forall>l\<in>set (c_listeners ?start). 1 \<le> tick l"
    using assms(1) by auto
  have c: "c_thrown ?start = None"
    by simp
  have e: "c_listeners ?start = ?adv" "c_fired ?start = []"
    by simp_all
  have f: "filter (\<lambda>i. due (?adv ! i)) [0..<length (listeners s)] =
           filter (\<lambda>i. tick (listeners s ! i) \<le> counter (listeners s ! i) + systemIntervalTick s)
             [0..<length (listeners s)]"
    by (rule filter_cong) (simp_all add: due_def)
  note r = poll_players_calm [OF a b c, of fault players "playerCache s", unfolded e length_map f append_Nil]
  have m: "map reset_due ?adv =
           map (\<lambda>l. if tick l \<le> counter l + systemIntervalTick s then l\<lparr>counter := 0\<rparr>
                     else l\<lparr>counter := counter l + systemIntervalTick s\<rparr>) (listeners s)"
    by (simp add: reset_due_def due_def)
  from r have 1: "c_thrown ?fin = None"
    by simp
  from r have 2: "c_fired ?fin =
        (case cycle_gains (playerCache s) players of
           [] \<Rightarrow> []
         | d # ds \<Rightarrow>
             map (\<lambda>i. (i, d))
               (filter (\<lambda>i. tick (listeners s ! i) \<le> counter (listeners s ! i) + systemIntervalTick s)
                  [0..<length (listeners s)]))"
    by simp
  from r have "c_listeners ?fin = (if cycle_gains (playerCache s) players = [] then ?adv else map reset_due ?adv)"
    by simp
  then have 3: "c_listeners ?fin =
        map (\<lambda>l. if cycle_gains (playerCache s) players \<noteq> []
                      \<and> tick l \<le> counter l + systemIntervalTick s
                  then l\<lparr>counter := 0\<rparr>
                  else l\<lparr>counter := counter l + systemIntervalTick s\<rparr>) (listeners s)"
    unfolding m by (cases "cycle_gains (playerCache s) players = []") simp_all
  from 1 2 3 show ?thesis
    by (simp only: poll_listeners p)
qed

section \<open>Failures inside the actions\<close>

text \<open>
  Claim C7. Whatever the host does on a container write, \<open>actions.remove()\<close> throws
  nothing, and when the removal fails the message is put on the console; the same holds
  for \<open>actions.restore()\<close> and a failing command. So when a gain is delivered to
  listeners whose callbacks throw only what the action throws, the delivery is not ended
  by a failed write: the callback of every listener that is due is run, in registration
  order, on the same record and the same action, each on the state the one before left;
  the counters of these listeners are reset and nothing is thrown.
\<close>

theorem action_failures_are_contained:
  "fst (remove fault tid n h) = None
   \<and> (\<forall>message inventory'.
         removeItemsFromInventory fault tid n (h_inv h) = (Some message, inventory') \<longrightarrow>
         snd (remove fault tid n h) =
           h\<lparr>h_inv := inventory', h_console := h_console h @ [''Failed to remove items: '' @ message]\<rparr>)
   \<and> fst (restore str runCommand data console) = None
   \<and> (\<forall>message.
         runCommand (''setblock '' @ str (vec_x (location data)) @ '' '' @ str (vec_y (location data))
                       @ '' '' @ str (vec_z (location data)) @ '' '' @ blockId data) = Some message \<longrightarrow>
         snd (restore str runCommand data console) = console @ [''Failed to restore block: '' @ message])
   \<and> (c_thrown c = None \<and> (\<forall>l\<in>set (c_listeners c). relays l) \<longrightarrow>
         c_thrown (on_gain fault pname gain c) = None
         \<and> c_host (on_gain fault pname gain c) =
             fold (\<lambda>l h. snd (callback l \<lparr>d_typeId = fst gain, d_amount = snd gain, d_player = pname\<rparr>
                                  (remove fault (fst gain) (snd gain)) h))
               (filter due (c_listeners c)) (c_host c)
         \<and> c_listeners (on_gain fault pname gain c) = map reset_due (c_listeners c)
         \<and> c_fired (on_gain fault pname gain c) =
             c_fired c @ map (\<lambda>i. (i, \<lparr>d_typeId = fst gain, d_amount = snd gain, d_player = pname\<rparr>))
                           (filter (\<lambda>i. due (c_listeners c ! i)) [0..<length (c_listeners c)]))"
proof (intro conjI allI impI)
  show "fst (remove fault tid n h) = None"
    by (rule remove_never_throws)
next
  fix message inventory'
  assume "removeItemsFromInventory fault tid n (h_inv h) = (Some message, inventory')"
  then show "snd (remove fault tid n h) =
           h\<lparr>h_inv := inventory', h_console := h_console h @ [''Failed to remove items: '' @ message]\<rparr>"
    by (simp add: remove_def)
next
  show "fst (restore str runCommand data console) = None"
    by (simp add: restore_def split: prod.splits option.splits)
next
  fix message
  assume "runCommand (''setblock '' @ str (vec_x (location data)) @ '' '' @ str (vec_y (location data))
                       @ '' '' @ str (vec_z (location data)) @ '' '' @ blockId data) = Some message"
  then show "snd (restore str runCommand data console) = console @ [''Failed to restore block: '' @ message]"
    by (simp add: restore_def split: prod.splits)
next
  assume a: "c_thrown c = None \<and> (\<forall>l\<in>set (c_listeners c). relays l)"
  then have cf: "calm_for (remove fault (fst gain) (snd gain)) (c_listeners c)"
    by (simp add: relays_calm_for)
  from a have t: "c_thrown c = None" by simp
  show "c_thrown (on_gain fault pname gain c) = None"
    unfolding on_gain_def by (rule notify_calm(1) [OF t cf])
  show "c_host (on_gain fault pname gain c) =
             fold (\<lambda>l h. snd (callback l \<lparr>d_typeId = fst gain, d_amount = snd gain, d_player = pname\<rparr>
                                  (remove fault (fst gain) (snd gain)) h))
               (filter due (c_listeners c)) (c_host c)"
    unfolding on_gain_def by (rule notify_calm(4) [OF t cf])
  show "c_listeners (on_gain fault pname gain c) = map reset_due (c_listeners c)"
    unfolding on_gain_def by (rule notify_calm(2) [OF t cf])
  show "c_fired (on_gain fault pname gain c) =
             c_fired c @ map (\<lambda>i. (i, \<lparr>d_typeId = fst gain, d_amount = snd gain, d_player = pname\<rparr>))
                           (filter (\<lambda>i. due (c_listeners c ! i)) [0..<length (c_listeners c)])"
    unfolding on_gain_def by (rule notify_calm(3) [OF t cf])
qed

theorem action_failures_are_contained_witness:
  "removeItemsFromInventory locked ''A'' 2 [Some \<lparr>typeId = ''A'', amount = 2\<rparr>]
     = (Some ''locked'', [Some \<lparr>typeId = ''A'', amount = 2\<rparr>])
   \<and> remove locked ''A'' 2 \<lparr>h_inv = [Some \<lparr>typeId = ''A'', amount = 2\<rparr>], h_console = []\<rparr>
     = (None, \<lparr>h_inv = [Some \<lparr>typeId = ''A'', amount = 2\<rparr>],
                h_console = [''Failed to remove items: locked'']\<rparr>)
   \<and> restore (\<lambda>n. ''7'') (\<lambda>command. Some ''denied'')
        \<lparr>b_player = ''steve'', blockId = ''minecraft:stone'', location = \<lparr>vec_x = 7, vec_y = 7, vec_z = 7\<rparr>,
          dimension = ''overworld'', toolTypeId = None\<rparr> []
     = (None, [''Failed to restore block: denied''])
   \<and> relays \<lparr>callback = take_back, tick = 10, counter = 10\<rparr>
   \<and> relays \<lparr>callback = report, tick = 5, counter = 10\<rparr>
   \<and> relays \<lparr>callback = take_back, tick = 7, counter = 10\<rparr>
   \<and> c_thrown (on_gain locked ''steve'' (''A'', 2)
        \<lparr>c_listeners = [\<lparr>callback = take_back, tick = 10, counter = 10\<rparr>,
                         \<lparr>callback = report, tick = 5, counter = 10\<rparr>,
                         \<lparr>callback = take_back, tick = 7, counter = 10\<rparr>],
          c_host = \<lparr>h_inv = [Some \<lparr>typeId = ''A'', amount = 2\<rparr>], h_console = []\<rparr>,
          c_fired = [], c_thrown = None\<rparr>) = None
   \<and> c_host (on_gain locked ''steve'' (''A'', 2)
        \<lparr>c_listeners = [\<lparr>callback = take_back, tick = 10, counter = 10\<rparr>,
                         \<lparr>callback = report, tick = 5, counter = 10\<rparr>,
                         \<lparr>callback = take_back, tick = 7, counter = 10\<rparr>],
          c_host = \<lparr>h_inv = [Some \<lparr>typeId = ''A'', amount = 2\<rparr>], h_console = []\<rparr>,
          c_fired = [], c_thrown = None\<rparr>)
     = \<lparr>h_inv = [Some \<lparr>typeId = ''A'', amount = 2\<rparr>],
        h_console = [''Failed to remove items: locked'', ''A'', ''Failed to remove items: locked'']\<rparr>
   \<and> map counter (c_listeners (on_gain locked ''steve'' (''A'', 2)
        \<lparr>c_listeners = [\<lparr>callback = take_back, tick = 10, counter = 10\<rparr>,
                         \<lparr>callback = report, tick = 5, counter = 10\<rparr>,
                         \<lparr>callback = take_back, tick = 7, counter = 10\<rparr>],
          c_host = \<lparr>h_inv = [Some \<lparr>typeId = ''A'', amount = 2\<rparr>], h_console = []\<rparr>,
          c_fired = [], c_thrown = None\<rparr>)) = [0, 0, 0]"
proof -
  let ?inv = "[Some \<lparr>typeId = ''A'', amount = 2\<rparr>]"
  let ?h = "\<lparr>h_inv = ?inv, h_console = []\<rparr>"
  let ?ls = "[\<lparr>callback = take_back, tick = 10, counter = 10\<rparr>,
              \<lparr>callback = report, tick = 5, counter = 10\<rparr>,
              \<lparr>callback = take_back, tick = 7, counter = 10\<rparr>]"
  let ?c = "\<lparr>c_listeners = ?ls, c_host = ?h, c_fired = [], c_thrown = None\<rparr>"
  let ?data = "\<lparr>b_player = ''steve'', blockId = ''minecraft:stone'', location = \<lparr>vec_x = 7, vec_y = 7, vec_z = 7\<rparr>,
          dimension = ''overworld'', toolTypeId = None\<rparr>"
  note th = action_failures_are_contained [where fault = locked and tid = "''A''" and n = 2 and h = ?h
      and str = "\<lambda>n. ''7''" and runCommand = "\<lambda>command. Some ''denied''" and data = ?data
      and console = "[]" and c = ?c and pname = "''steve''" and gain = "(''A'', 2)"]
  have r: "removeItemsFromInventory locked ''A'' 2 ?inv = (Some ''locked'', ?inv)"
    by (simp add: removeItemsFromInventory_def remove_loop.simps [of _ "''A''" ?inv 0 2]
        setItem_def locked_def)
  have rel: "\<forall>l\<in>set ?ls. relays l"
    by (simp add: relays_def take_back_def report_def)
  have d: "filter due ?ls = ?ls"
    by (simp add: due_def)
  from th have 1: "fst (remove locked ''A'' 2 ?h) = None"
    by blast
  from th r have 2: "snd (remove locked ''A'' 2 ?h) =
      ?h\<lparr>h_inv := ?inv, h_console := h_console ?h @ [''Failed to remove items: '' @ ''locked'']\<rparr>"
    by simp
  from 1 2 have rm: "remove locked ''A'' 2 ?h = (None, \<lparr>h_inv = ?inv, h_console = [''Failed to remove items: locked'']\<rparr>)"
    by (simp add: prod_eq_iff)
  from th have 3: "fst (restore (\<lambda>n. ''7'') (\<lambda>command. Some ''denied'') ?data []) = None"
    by blast
  from th have 4: "snd (restore (\<lambda>n. ''7'') (\<lambda>command. Some ''denied'') ?data []) =
      [] @ [''Failed to restore block: '' @ ''denied'']"
    by simp
  from 3 4 have rs: "restore (\<lambda>n. ''7'') (\<lambda>command. Some ''denied'') ?data [] = (None, [''Failed to restore block: denied''])"
    by (simp add: prod_eq_iff)
  from th rel have 5: "c_thrown (on_gain locked ''steve'' (''A'', 2) ?c) = None"
    and 6: "c_host (on_gain locked ''steve'' (''A'', 2) ?c) =
        fold (\<lambda>l h. snd (callback l \<lparr>d_typeId = fst (''A'', 2::int), d_amount = snd (''A'', 2::int), d_player = ''steve''\<rparr>
                                  (remove locked (fst (''A'', 2::int)) (snd (''A'', 2::int))) h))
               (filter due (c_listeners ?c)) (c_host ?c)"
    and 7: "c_listeners (on_gain locked ''steve'' (''A'', 2) ?c) = map reset_due (c_listeners ?c)"
    by simp_all
  have rm': "remove locked ''A'' 2 \<lparr>h_inv = ?inv, h_console = cs\<rparr> =
      (None, \<lparr>h_inv = ?inv, h_console = cs @ [''Failed to remove items: locked'']\<rparr>)" for cs
    by (simp add: remove_def r)
  have 8: "c_host (on_gain locked ''steve'' (''A'', 2) ?c) =
      \<lparr>h_inv = ?inv, h_console = [''Failed to remove items: locked'', ''A'', ''Failed to remove items: locked'']\<rparr>"
    unfolding 6 by (simp add: due_def take_back_def report_def rm')
  have 9: "map counter (c_listeners (on_gain locked ''steve'' (''A'', 2) ?c)) = [0, 0, 0]"
    unfolding 7 by (simp add: reset_due_def due_def)
  from rel have rel1: "relays \<lparr>callback = take_back, tick = 10, counter = 10\<rparr>"
    and rel2: "relays \<lparr>callback = report, tick = 5, counter = 10\<rparr>"
    and rel3: "relays \<lparr>callback = take_back, tick = 7, counter = 10\<rparr>"
    by simp_all
  from r rm rs rel1 rel2 rel3 5 8 9 show ?thesis
    by (intro conjI)
qed

section \<open>A state reached by one registration\<close>




section \<open>Pickups that are never reported\<close>

lemma steve_snapshot:
  "snapshotInventory [Some \<lparr>typeId = ''A'', amount = 2\<rparr>, Some \<lparr>typeId = ''B'', amount = 1\<rparr>]
     = [(''A'', 2), (''B'', 1)]"
  by (simp add: snapshotInventory_fold snap_step_def or0_def)

lemma listens_report:
  "listens init [(Some report, Undefined)] =
     \<lparr>listeners = [\<lparr>callback = report, tick = 10, counter = 0\<rparr>], playerCache = [],
       systemIntervalId = Some 0, systemIntervalTick = 10, timer_calls = [RunInterval 0 10]\<rparr>"
  by (simp add: listen_def init_def DEFAULT_TICK_def adjustSystemInterval_def
      startSystemInterval_def Let_def fresh_handle_def)

lemma first_poll_report:
  "poll no_fault
     \<lparr>listeners = [\<lparr>callback = report, tick = 10, counter = 0\<rparr>], playerCache = [],
       systemIntervalId = Some 0, systemIntervalTick = 10, timer_calls = [RunInterval 0 10]\<rparr>
     [steve] []
   = (\<lparr>listeners = [\<lparr>callback = report, tick = 10, counter = 0\<rparr>],
        playerCache = [(''steve'', [(''A'', 2), (''B'', 1)])],
        systemIntervalId = Some 0, systemIntervalTick = 10, timer_calls = [RunInterval 0 10]\<rparr>,
      [steve],
      \<lparr>c_listeners = [\<lparr>callback = report, tick = 10, counter = 0\<rparr>],
        c_host = \<lparr>h_inv = [Some \<lparr>typeId = ''A'', amount = 2\<rparr>, Some \<lparr>typeId = ''B'', amount = 1\<rparr>],
                   h_console = [''A'']\<rparr>,
        c_fired = [(0, \<lparr>d_typeId = ''A'', d_amount = 2, d_player = ''steve''\<rparr>)],
        c_thrown = None\<rparr>)"
  by (simp add: poll_def steve_def steve_snapshot oldAmount_def or0_def on_gain_def notify_def
      fire_def report_def Let_def)

lemma second_poll_report:
  "poll no_fault
     \<lparr>listeners = [\<lparr>callback = report, tick = 10, counter = 0\<rparr>],
       playerCache = [(''steve'', [(''A'', 2), (''B'', 1)])],
       systemIntervalId = Some 0, systemIntervalTick = 10, timer_calls = [RunInterval 0 10]\<rparr>
     [steve] []
   = (\<lparr>listeners = [\<lparr>callback = report, tick = 10, counter = 10\<rparr>],
        playerCache = [(''steve'', [(''A'', 2), (''B'', 1)])],
        systemIntervalId = Some 0, systemIntervalTick = 10, timer_calls = [RunInterval 0 10]\<rparr>,
      [steve],
      \<lparr>c_listeners = [\<lparr>callback = report, tick = 10, counter = 10\<rparr>],
        c_host = \<lparr>h_inv = [Some \<lparr>typeId = ''A'', amount = 2\<rparr>, Some \<lparr>typeId = ''B'', amount = 1\<rparr>],
                   h_console = []\<rparr>,
        c_fired = [], c_thrown = None\<rparr>)"
  by (simp add: poll_def steve_def steve_snapshot oldAmount_def or0_def Let_def)

text \<open>
  Claim C1 fails on the code. One listener with period 10 is registered, so the poll period
  is 10 and the listener is due in the first cycle. The player holds two item types, so
  the cycle builds two gain records, for A and for B. The callback is run for A only: after
  it the counter is 0 and the listener loop does nothing for B. The snapshot with B in it
  is cached all the same, so the next cycle finds no gain and the pickup of B is never
  reported.
\<close>

theorem second_gain_of_a_cycle_is_dropped:
  "listeners (listens init [(Some report, Undefined)]) = [\<lparr>callback = report, tick = 10, counter = 0\<rparr>]
   \<and> systemIntervalTick (listens init [(Some report, Undefined)]) = 10
   \<and> diff (map_of (playerCache (listens init [(Some report, Undefined)])) ''steve'')
        (snapshotInventory [Some \<lparr>typeId = ''A'', amount = 2\<rparr>, Some \<lparr>typeId = ''B'', amount = 1\<rparr>])
       = [(''A'', 2), (''B'', 1)]
   \<and> h_console (c_host (snd (snd (poll no_fault (listens init [(Some report, Undefined)]) [steve] []))))
       = [''A'']
   \<and> fired_count (snd (snd (poll no_fault (listens init [(Some report, Undefined)]) [steve] []))) 0 = 1
   \<and> playerCache (fst (poll no_fault (listens init [(Some report, Undefined)]) [steve] []))
       = [(''steve'', [(''A'', 2), (''B'', 1)])]
   \<and> h_console (c_host (snd (snd (poll no_fault
         (fst (poll no_fault (listens init [(Some report, Undefined)]) [steve] []))
         (fst (snd (poll no_fault (listens init [(Some report, Undefined)]) [steve] []))) []))))
       = []"
  unfolding listens_report first_poll_report fst_conv snd_conv second_poll_report
  by (simp add: steve_snapshot oldAmount_def or0_def fired_count_def)

lemma listens_report_20:
  "listens init [(Some report, Integer 20)] =
     \<lparr>listeners = [\<lparr>callback = report, tick = 20, counter = 0\<rparr>], playerCache = [],
       systemIntervalId = Some 0, systemIntervalTick = 10, timer_calls = [RunInterval 0 10]\<rparr>"
  by (simp add: listen_def init_def DEFAULT_TICK_def adjustSystemInterval_def
      startSystemInterval_def Let_def fresh_handle_def)

lemma first_poll_report_20:
  "poll no_fault
     \<lparr>listeners = [\<lparr>callback = report, tick = 20, counter = 0\<rparr>], playerCache = [],
       systemIntervalId = Some 0, systemIntervalTick = 10, timer_calls = [RunInterval 0 10]\<rparr>
     [steve] []
   = (\<lparr>listeners = [\<lparr>callback = report, tick = 20, counter = 10\<rparr>],
        playerCache = [(''steve'', [(''A'', 2), (''B'', 1)])],
        systemIntervalId = Some 0, systemIntervalTick = 10, timer_calls = [RunInterval 0 10]\<rparr>,
      [steve],
      \<lparr>c_listeners = [\<lparr>callback = report, tick = 20, counter = 10\<rparr>],
        c_host = \<lparr>h_inv = [Some \<lparr>typeId = ''A'', amount = 2\<rparr>, Some \<lparr>typeId = ''B'', amount = 1\<rparr>],
                   h_console = []\<rparr>,
        c_fired = [], c_thrown = None\<rparr>)"
  by (simp add: poll_def steve_def steve_snapshot oldAmount_def or0_def on_gain_def notify_def
      fire_def report_def Let_def)

lemma second_poll_report_20:
  "poll no_fault
     \<lparr>listeners = [\<lparr>callback = report, tick = 20, counter = 10\<rparr>],
       playerCache = [(''steve'', [(''A'', 2), (''B'', 1)])],
       systemIntervalId = Some 0, systemIntervalTick = 10, timer_calls = [RunInterval 0 10]\<rparr>
     [steve] []
   = (\<lparr>listeners = [\<lparr>callback = report, tick = 20, counter = 20\<rparr>],
        playerCache = [(''steve'', [(''A'', 2), (''B'', 1)])],
        systemIntervalId = Some 0, systemIntervalTick = 10, timer_calls = [RunInterval 0 10]\<rparr>,
      [steve],
      \<lparr>c_listeners = [\<lparr>callback = report, tick = 20, counter = 20\<rparr>],
        c_host = \<lparr>h_inv = [Some \<lparr>typeId = ''A'', amount = 2\<rparr>, Some \<lparr>typeId = ''B'', amount = 1\<rparr>],
                   h_console = []\<rparr>,
        c_fired = [], c_thrown = None\<rparr>)"
  by (simp add: poll_def steve_def steve_snapshot oldAmount_def or0_def Let_def)

text \<open>
  Claim C2 fails on the code. After the single registration \<open>listen(report, 20)\<close> the
  minimum of the registered periods is 20, and the poll period is 10: the \<open>reduce\<close> of
  \<open>adjustSystemInterval\<close> starts from the default. The recurring task is scheduled every
  10 ticks. Its first run finds the player's items, delivers nothing because the counter is
  10, and caches the snapshot; its second run finds the listener due and no gain. The
  pickup is never reported, which it would be with a poll period of 20.
\<close>

theorem lone_slow_listener_is_polled_at_default:
  "map tick (listeners (listens init [(Some report, Integer 20)])) = [20]
   \<and> Min (tick ` set (listeners (listens init [(Some report, Integer 20)]))) = 20
   \<and> systemIntervalTick (listens init [(Some report, Integer 20)]) = 10
   \<and> timer_calls (listens init [(Some report, Integer 20)]) = [RunInterval 0 10]
   \<and> h_console (c_host (snd (snd (poll no_fault (listens init [(Some report, Integer 20)]) [steve] []))))
       = []
   \<and> playerCache (fst (poll no_fault (listens init [(Some report, Integer 20)]) [steve] []))
       = [(''steve'', [(''A'', 2), (''B'', 1)])]
   \<and> map counter (listeners (fst (poll no_fault
         (fst (poll no_fault (listens init [(Some report, Integer 20)]) [steve] []))
         (fst (snd (poll no_fault (listens init [(Some report, Integer 20)]) [steve] []))) [])))
       = [20]
   \<and> h_console (c_host (snd (snd (poll no_fault
         (fst (poll no_fault (listens init [(Some report, Integer 20)]) [steve] []))
         (fst (snd (poll no_fault (listens init [(Some report, Integer 20)]) [steve] []))) []))))
       = []"
  unfolding listens_report_20 first_poll_report_20 fst_conv snd_conv second_poll_report_20
  by simp

section \<open>Properties of the HTTP shim\<close>

lemma build_example:
  "build_request example_js ''http://x'' (get_config (Some ''http://x''))
     = Inr \<lparr>uri = ''http://x'', req_method = Get, req_body = [], req_headers = []\<rparr>"
  by (simp add: build_request_def get_config_def example_js_def request_method_def
      set_method_def set_body_def set_headers_def)

lemma set_method_error: "set_method js method request = Inl e \<Longrightarrow> e = TypeError"
  by (simp add: set_method_def split: method_value.splits)

lemma set_body_error: "set_body js body headers request = Inl e \<Longrightarrow> e = TypeError"
  by (simp add: set_body_def split: option.splits body_value.splits headers_value.splits)

lemma set_headers_error: "set_headers headers request = Inl e \<Longrightarrow> e = TypeError"
  by (simp add: set_headers_def split: headers_value.splits)

lemma build_request_error: "build_request js u config = Inl e \<Longrightarrow> e = TypeError"
  unfolding build_request_def Let_def
  by (auto split: sum.splits prod.splits dest: set_method_error set_body_error set_headers_error)

text \<open>
  What the code does once the transport call has succeeded: the status and the headers of
  the result are those of the response; the data is \<open>null\<close> when the response body is
  missing or empty, and the parsed body when the parser accepts it; when the parser rejects
  the body, the parser's exception is caught by the same \<open>catch\<close> and wrapped.
\<close>

lemma httpReq_after_success:
  assumes "cfg_url config = Some u" and "u \<noteq> []"
    and "build_request js u config = Inr request"
    and "transport request = Inr response"
  shows "(falsy (resp_body response) \<longrightarrow>
           fst (httpReq js transport config) =
             Inr \<lparr>res_status = resp_status response, res_data = None,
                   res_headers = resp_headers response\<rparr>)
    \<and> (\<forall>b v. resp_body response = Some b \<and> b \<noteq> [] \<and> JSON_parse js b = Inr v \<longrightarrow>
           fst (httpReq js transport config) =
             Inr \<lparr>res_status = resp_status response, res_data = Some v,
                   res_headers = resp_headers response\<rparr>)
    \<and> (\<forall>b message. resp_body response = Some b \<and> b \<noteq> [] \<and> JSON_parse js b = Inl message \<longrightarrow>
           fst (httpReq js transport config) = Inl (Error (''HTTP request failed: '' @ message)))"
  using assms
  by (auto simp: httpReq_def falsy_def split: option.splits)

text \<open>
  Claim C8 fails on the code. The request for \<open>http://x\<close> is built and handed to the
  transport once; the transport call succeeds with status 200, no headers and the body
  \<open><html>\<close>; the parser rejects the body; \<open>httpReq\<close> returns no result object: it throws
  an error that reports a failed request.
\<close>

theorem httpReq_rejects_successful_response:
  "build_request example_js ''http://x'' (get_config (Some ''http://x''))
     = Inr \<lparr>uri = ''http://x'', req_method = Get, req_body = [], req_headers = []\<rparr>
   \<and> html_page \<lparr>uri = ''http://x'', req_method = Get, req_body = [], req_headers = []\<rparr>
     = Inr \<lparr>resp_status = 200, resp_body = Some ''<html>'', resp_headers = []\<rparr>
   \<and> JSON_parse example_js ''<html>'' = Inl ''Unexpected token <''
   \<and> httpReq example_js html_page (get_config (Some ''http://x''))
     = (Inl (Error ''HTTP request failed: Unexpected token <''),
        [\<lparr>uri = ''http://x'', req_method = Get, req_body = [], req_headers = []\<rparr>])"
proof -
  let ?c = "get_config (Some ''http://x'') :: string config"
  let ?r = "\<lparr>uri = ''http://x'', req_method = Get, req_body = [], req_headers = []\<rparr>"
  have b: "build_request example_js ''http://x'' ?c = Inr ?r"
    by (rule build_example)
  have h: "html_page ?r = Inr \<lparr>resp_status = 200, resp_body = Some ''<html>'', resp_headers = []\<rparr>"
    by (simp add: html_page_def)
  have p: "JSON_parse example_js ''<html>'' = Inl ''Unexpected token <''"
    by (simp add: example_js_def)
  have u: "cfg_url ?c = Some ''http://x''"
    by (simp add: get_config_def)
  have r: "httpReq example_js html_page ?c = (Inl (Error ''HTTP request failed: Unexpected token <''), [?r])"
    by (simp add: httpReq_def u b h p falsy_def)
  from b h p r show ?thesis
    by (intro conjI)
qed

text \<open>
  Claim C9, as amended. \<open>httpReq\<close> throws the missing-URL error exactly when the URL is
  missing or empty, and then the transport is not called. The transport is never called
  more than once. When the request has been built and the transport call fails, \<open>httpReq\<close>
  throws one error whose message is the transport's message behind a fixed prefix, after
  that single call.
\<close>

theorem httpReq_errors:
  "(fst (httpReq js transport config) = Inl (Error ''URL is required'') \<longleftrightarrow> falsy (cfg_url config))
   \<and> (falsy (cfg_url config) \<longrightarrow> snd (httpReq js transport config) = [])
   \<and> length (snd (httpReq js transport config)) \<le> 1
   \<and> (\<forall>u request message.
         cfg_url config = Some u \<and> u \<noteq> [] \<and> build_request js u config = Inr request
           \<and> transport request = Inl message \<longrightarrow>
         httpReq js transport config =
           (Inl (Error (''HTTP request failed: '' @ message)), [request]))"
proof (intro conjI allI impI)
  show "fst (httpReq js transport config) = Inl (Error ''URL is required'') \<longleftrightarrow> falsy (cfg_url config)"
    using build_request_error [of js _ config]
    by (auto simp: httpReq_def falsy_def split: option.splits sum.splits)
next
  assume "falsy (cfg_url config)"
  then show "snd (httpReq js transport config) = []"
    by (auto simp: httpReq_def falsy_def)
next
  show "length (snd (httpReq js transport config)) \<le> 1"
    by (simp add: httpReq_def split: option.splits sum.splits)
next
  fix u request message
  assume "cfg_url config = Some u \<and> u \<noteq> [] \<and> build_request js u config = Inr request
           \<and> transport request = Inl message"
  then show "httpReq js transport config =
           (Inl (Error (''HTTP request failed: '' @ message)), [request])"
    by (simp add: httpReq_def)
qed

theorem httpReq_errors_witness:
  "httpReq example_js refused (get_config None) = (Inl (Error ''URL is required''), [])
   \<and> httpReq example_js refused (get_config (Some ''http://x''))
     = (Inl (Error ''HTTP request failed: connection refused''),
        [\<lparr>uri = ''http://x'', req_method = Get, req_body = [], req_headers = []\<rparr>])
   \<and> fst (httpReq example_js refused (get_config (Some ''http://x''))) \<noteq> Inl (Error ''URL is required'')"
proof -
  let ?c = "get_config (Some ''http://x'')"
  let ?r = "\<lparr>uri = ''http://x'', req_method = Get, req_body = [], req_headers = []\<rparr>"
  have f: "falsy (cfg_url (get_config None :: string config))"
    by (simp add: falsy_def get_config_def)
  have nf: "\<not> falsy (cfg_url ?c)"
    by (simp add: falsy_def get_config_def)
  have u: "cfg_url ?c = Some ''http://x'' \<and> ''http://x'' \<noteq> []
           \<and> build_request example_js ''http://x'' ?c = Inr ?r
           \<and> refused ?r = Inl ''connection refused''"
    using build_example by (simp add: get_config_def refused_def)
  note t1 = httpReq_errors [where config = "get_config None" and js = example_js and transport = refused]
  note t2 = httpReq_errors [where config = ?c and js = example_js and transport = refused]
  from t1 f have a: "fst (httpReq example_js refused (get_config None)) = Inl (Error ''URL is required'')"
    and b: "snd (httpReq example_js refused (get_config None)) = []"
    by blast+
  from a b have 1: "httpReq example_js refused (get_config None) = (Inl (Error ''URL is required''), [])"
    by (simp add: prod_eq_iff)
  from t2 u have "httpReq example_js refused ?c =
      (Inl (Error (''HTTP request failed: '' @ ''connection refused'')), [?r])"
    by blast
  then have 2: "httpReq example_js refused ?c =
      (Inl (Error ''HTTP request failed: connection refused''), [?r])"
    by simp
  from t2 nf have 3: "fst (httpReq example_js refused ?c) \<noteq> Inl (Error ''URL is required'')"
    by blast
  from 1 2 3 show ?thesis
    by (intro conjI)
qed

text \<open>
  Claim C9 as stated fails: with the URL present but empty the missing-URL error is thrown
  as well.
\<close>

theorem httpReq_missing_url_counterexample:
  "cfg_url (get_config (Some [])) \<noteq> None
   \<and> httpReq example_js refused (get_config (Some [])) = (Inl (Error ''URL is required''), [])"
  by (simp add: httpReq_def get_config_def)

text \<open>
  An exception out of the steps that build the request is not wrapped and the transport is
  not called: here the serialiser rejects the body.
\<close>

lemma httpReq_build_failure:
  "httpReq example_js refused (post_config (Some ''http://x'') ''cyclic'') = (Inl TypeError, [])"
proof -
  have b: "build_request example_js ''http://x'' (post_config (Some ''http://x'') ''cyclic'') = Inl TypeError"
    by (simp add: post_config_def build_request_def set_method_def set_body_def example_js_def)
  have u: "cfg_url (post_config (Some ''http://x'') ''cyclic'' :: string config) = Some ''http://x''"
    by (simp add: post_config_def)
  show ?thesis
    by (simp add: httpReq_def u b)
qed

end
